theory Spec2Isabelle
  imports Main "HOL-Library.Sublist" "HOL-Library.List_Lexorder" "HOL-Library.Char_ord"
begin

section \<open>The Go library functions the storage package calls\<close>

text \<open>
  A Go string is a sequence of bytes, and so is a \<^typ>\<open>string\<close> here. Go's \<open>uint\<close> is
  taken at 64 bits and modelled as \<^typ>\<open>nat\<close>, the wrap-around written out at the one
  increment that can overflow. An absent index (Go's \<open>-1\<close>) is \<^term>\<open>None\<close>.
  Failures of the operating system (open, read, truncate, write) are not modelled: the file
  is a string that is always readable and writable.
\<close>

definition NL :: string where
  "NL = [CHR 0x0A]"

definition HasPrefix :: "string \<Rightarrow> string \<Rightarrow> bool" where
  "HasPrefix s p = prefix p s"

text \<open>\<open>strings.Index\<close>: the offset of the first occurrence of \<open>sep\<close> in \<open>s\<close>.\<close>

fun Index :: "string \<Rightarrow> string \<Rightarrow> nat option" where
  "Index [] sep = (if sep = [] then Some 0 else None)"
| "Index (c # cs) sep =
     (if prefix sep (c # cs) then Some 0 else map_option Suc (Index cs sep))"

definition Contains :: "string \<Rightarrow> string \<Rightarrow> bool" where
  "Contains s sub = (Index s sub \<noteq> None)"

text \<open>\<open>strings.LastIndex\<close>: the offset of the last occurrence of \<open>sep\<close> in \<open>s\<close>.\<close>

fun LastIndex :: "string \<Rightarrow> string \<Rightarrow> nat option" where
  "LastIndex [] sep = (if sep = [] then Some 0 else None)"
| "LastIndex (c # cs) sep =
     (case LastIndex cs sep of
        Some i \<Rightarrow> Some (Suc i)
      | None \<Rightarrow> if prefix sep (c # cs) then Some 0 else None)"

text \<open>
  \<open>strings.SplitN\<close>, \<open>strings.Split\<close> and \<open>strings.Replace\<close> for a separator that is
  not empty (every call of the package passes a literal of one or more bytes, or
  \<open>PAGES=<n>\<close>); on the empty separator Go splits into UTF-8 sequences, which no caller
  reaches and the model does not reproduce.
\<close>

fun SplitN :: "string \<Rightarrow> string \<Rightarrow> nat \<Rightarrow> string list" where
  "SplitN s sep 0 = []"
| "SplitN s sep (Suc 0) = [s]"
| "SplitN s sep (Suc (Suc n)) =
     (case Index s sep of
        None \<Rightarrow> [s]
      | Some i \<Rightarrow> take i s # SplitN (drop (i + length sep) s) sep (Suc n))"

function Split :: "string \<Rightarrow> string \<Rightarrow> string list" where
  "Split s sep =
     (if sep = [] then [s]
      else case Index s sep of
        None \<Rightarrow> [s]
      | Some i \<Rightarrow> take i s # Split (drop (i + length sep) s) sep)"
  by pat_completeness auto
termination
proof (relation "measure (\<lambda>(s, sep). length s)")
  show "wf (measure (\<lambda>(s, sep). length s))" by simp
next
  fix s sep :: string and i :: nat
  assume ne: "sep \<noteq> []" and ix: "Index s sep = Some i"
  have "\<And>j. Index s sep = Some j \<Longrightarrow> j + length sep \<le> length s"
  proof (induction s)
    case Nil
    then show ?case by (simp split: if_splits)
  next
    case (Cons c cs)
    show ?case
    proof (cases "prefix sep (c # cs)")
      case True
      then have "length sep \<le> length (c # cs)" by (rule prefix_length_le)
      with True Cons.prems show ?thesis by simp
    next
      case False
      with Cons.prems obtain k where "Index cs sep = Some k" and "j = Suc k" by auto
      with Cons.IH [of k] show ?thesis by simp
    qed
  qed
  from this [OF ix] ne have "s \<noteq> []" by auto
  with ne show "((drop (i + length sep) s, sep), (s, sep)) \<in> measure (\<lambda>(s, sep). length s)"
    by (cases sep) auto
qed

fun Join :: "string list \<Rightarrow> string \<Rightarrow> string" where
  "Join [] sep = []"
| "Join [x] sep = x"
| "Join (x # y # ys) sep = x @ sep @ Join (y # ys) sep"

fun Replace :: "string \<Rightarrow> string \<Rightarrow> string \<Rightarrow> nat \<Rightarrow> string" where
  "Replace s old new 0 = s"
| "Replace s old new (Suc n) =
     (case Index s old of
        None \<Rightarrow> s
      | Some i \<Rightarrow> take i s @ new @ Replace (drop (i + length old) s) old new n)"

text \<open>
  \<open>strings.TrimSpace\<close> removes the leading and the trailing white space, as
  \<open>unicode.IsSpace\<close> defines it. A rune is white space exactly when the bytes start
  (or, from the right, end) with its UTF-8 encoding, so the model strips these encodings.
\<close>

definition space_encodings :: "string list" where
  "space_encodings =
     [[CHR 0x09], [CHR 0x0A], [CHR 0x0B], [CHR 0x0C], [CHR 0x0D], [CHR 0x20],
      [CHR 0xC2, CHR 0x85], [CHR 0xC2, CHR 0xA0],
      [CHR 0xE1, CHR 0x9A, CHR 0x80],
      [CHR 0xE2, CHR 0x80, CHR 0x80], [CHR 0xE2, CHR 0x80, CHR 0x81],
      [CHR 0xE2, CHR 0x80, CHR 0x82], [CHR 0xE2, CHR 0x80, CHR 0x83],
      [CHR 0xE2, CHR 0x80, CHR 0x84], [CHR 0xE2, CHR 0x80, CHR 0x85],
      [CHR 0xE2, CHR 0x80, CHR 0x86], [CHR 0xE2, CHR 0x80, CHR 0x87],
      [CHR 0xE2, CHR 0x80, CHR 0x88], [CHR 0xE2, CHR 0x80, CHR 0x89],
      [CHR 0xE2, CHR 0x80, CHR 0x8A],
      [CHR 0xE2, CHR 0x80, CHR 0xA8], [CHR 0xE2, CHR 0x80, CHR 0xA9],
      [CHR 0xE2, CHR 0x80, CHR 0xAF], [CHR 0xE2, CHR 0x81, CHR 0x9F],
      [CHR 0xE3, CHR 0x80, CHR 0x80]]"

text \<open>The first white-space encoding \<open>s\<close> starts with, if any.\<close>

definition leading_space :: "string list \<Rightarrow> string \<Rightarrow> string option" where
  "leading_space ws s = find (\<lambda>w. w \<noteq> [] \<and> prefix w s) ws"

function strip_leading :: "string list \<Rightarrow> string \<Rightarrow> string" where
  "strip_leading ws s =
     (case leading_space ws s of
        None \<Rightarrow> s
      | Some w \<Rightarrow> strip_leading ws (drop (length w) s))"
  by pat_completeness auto
termination
proof (relation "measure (\<lambda>(ws, s). length s)")
  show "wf (measure (\<lambda>(ws, s). length s))" by simp
next
  fix ws :: "string list" and s w :: string
  assume "leading_space ws s = Some w"
  then have "w \<noteq> []" and "prefix w s"
    by (auto simp: leading_space_def find_Some_iff)
  then have "s \<noteq> []" by auto
  with \<open>w \<noteq> []\<close> show "((ws, drop (length w) s), (ws, s)) \<in> measure (\<lambda>(ws, s). length s)"
    by simp
qed

definition TrimSpace :: "string \<Rightarrow> string" where
  "TrimSpace s =
     rev (strip_leading (map rev space_encodings) (rev (strip_leading space_encodings s)))"

text \<open>\<open>fmt.Sprintf("%d", n)\<close> for an unsigned \<open>n\<close>.\<close>

fun FormatUint :: "nat \<Rightarrow> string" where
  "FormatUint n =
     (if n < 10 then [char_of (48 + n)]
      else FormatUint (n div 10) @ [char_of (48 + n mod 10)])"

definition is_digit :: "char \<Rightarrow> bool" where
  "is_digit c = (48 \<le> (of_char c :: nat) \<and> (of_char c :: nat) \<le> 57)"

definition digit_val :: "char \<Rightarrow> nat" where
  "digit_val c = of_char c - 48"

text \<open>The value of a string of decimal digits, read left to right.\<close>

fun dec_val :: "nat \<Rightarrow> string \<Rightarrow> nat" where
  "dec_val n [] = n"
| "dec_val n (c # cs) = dec_val (n * 10 + digit_val c) cs"

text \<open>
  \<open>strconv.ParseUint(s, 10, bitSize)\<close> as its callers use it: the error is dropped and
  only the number is kept. That number is 0 on a syntax error (the empty string, or the
  first byte that is no digit) and the largest number of \<open>bitSize\<close> bits as soon as the
  digits read so far exceed it, whatever follows.
\<close>

fun ParseUint_loop :: "nat \<Rightarrow> nat \<Rightarrow> string \<Rightarrow> nat" where
  "ParseUint_loop maxVal n [] = n"
| "ParseUint_loop maxVal n (c # cs) =
     (if \<not> is_digit c then 0
      else if n \<ge> (2 ^ 64 - 1) div 10 + 1 then maxVal
      else if n * 10 + digit_val c \<ge> 2 ^ 64 \<or> n * 10 + digit_val c > maxVal then maxVal
      else ParseUint_loop maxVal (n * 10 + digit_val c) cs)"

definition ParseUint :: "string \<Rightarrow> nat \<Rightarrow> nat" where
  "ParseUint s bitSize = (if s = [] then 0 else ParseUint_loop (2 ^ bitSize - 1) 0 s)"

text \<open>\<open>strconv.ParseBool\<close>, the error dropped: false on any other string.\<close>

definition ParseBool :: "string \<Rightarrow> bool" where
  "ParseBool s = (s \<in> set [''1'', ''t'', ''T'', ''TRUE'', ''true'', ''True''])"

definition FormatBool :: "bool \<Rightarrow> string" where
  "FormatBool b = (if b then ''true'' else ''false'')"

text \<open>
  \<open>fmt.Sscanf(s, "%d", &x)\<close>: white space is skipped (a newline is an error), then the
  longest run of decimal digits is read. When there is none, or the number does not fit
  the variable, the scan fails and \<open>x\<close> keeps its value; the callers drop the error.
  The result is the new value of \<open>x\<close>. What follows the digits is ignored.
\<close>

function SkipSpace :: "string \<Rightarrow> string option" where
  "SkipSpace s =
     (if s \<noteq> [] \<and> hd s = CHR 0x0A then None
      else case leading_space space_encodings s of
        None \<Rightarrow> Some s
      | Some w \<Rightarrow> SkipSpace (drop (length w) s))"
  by pat_completeness auto
termination
proof (relation "measure length")
  show "wf (measure length)" by simp
next
  fix s w :: string
  assume "leading_space space_encodings s = Some w"
  then have "w \<noteq> []" and "prefix w s"
    by (auto simp: leading_space_def find_Some_iff)
  then have "s \<noteq> []" by auto
  with \<open>w \<noteq> []\<close> show "(drop (length w) s, s) \<in> measure length"
    by simp
qed

definition Sscanf_uint :: "string \<Rightarrow> nat \<Rightarrow> nat" where
  "Sscanf_uint s x =
     (case SkipSpace s of
        None \<Rightarrow> x
      | Some t \<Rightarrow>
          (let ds = takeWhile is_digit t
           in if ds = [] \<or> dec_val 0 ds \<ge> 2 ^ 64 then x else dec_val 0 ds))"

text \<open>The same into a signed 64-bit \<open>int\<close>: one sign is accepted before the digits.\<close>

definition Sscanf_int :: "string \<Rightarrow> int \<Rightarrow> int" where
  "Sscanf_int s x =
     (case SkipSpace s of
        None \<Rightarrow> x
      | Some t \<Rightarrow>
          (let neg = (t \<noteq> [] \<and> hd t = CHR ''-'');
               u = (if t \<noteq> [] \<and> (hd t = CHR ''-'' \<or> hd t = CHR ''+'') then tl t else t);
               ds = takeWhile is_digit u;
               v = (if neg then - int (dec_val 0 ds) else int (dec_val 0 ds))
           in if ds = [] \<or> v < - (2 ^ 63) \<or> v \<ge> 2 ^ 63 then x else v))"

text \<open>
  \<open>bufio.Scanner\<close> with its default split function and buffer: the input is cut at
  each newline, a last line without newline is a line too, one trailing carriage return
  is dropped from each line, and a line of 65536 bytes or more stops the scan with
  \<open>ErrTooLong\<close>.
\<close>

fun split_lines :: "string \<Rightarrow> string list" where
  "split_lines [] = []"
| "split_lines (c # cs) =
     (if c = CHR 0x0A then [] # split_lines cs
      else case split_lines cs of
        [] \<Rightarrow> [[c]]
      | l # ls \<Rightarrow> (c # l) # ls)"

definition dropCR :: "string \<Rightarrow> string" where
  "dropCR l = (if l \<noteq> [] \<and> last l = CHR 0x0D then butlast l else l)"

datatype token = Line string | TooLong

definition MaxScanTokenSize :: nat where
  "MaxScanTokenSize = 65536"

definition Scanner :: "string \<Rightarrow> token list" where
  "Scanner s =
     map (\<lambda>l. if length l \<ge> MaxScanTokenSize then TooLong else Line (dropCR l)) (split_lines s)"

text \<open>
  \<open>sort.SearchStrings\<close>: the binary search of \<open>sort.Search\<close> for the first index whose
  element is not below \<open>x\<close>, by the byte-wise order of Go strings. On a slice that is not
  sorted it returns what the bisection happens to reach, and so does the model.
\<close>

function Search :: "nat \<Rightarrow> nat \<Rightarrow> (nat \<Rightarrow> bool) \<Rightarrow> nat" where
  "Search i j f =
     (if i < j then
        (if \<not> f ((i + j) div 2) then Search ((i + j) div 2 + 1) j f
         else Search i ((i + j) div 2) f)
      else i)"
  by pat_completeness auto
termination
  by (relation "measure (\<lambda>(i, j, f). j - i)") auto

definition SearchStrings :: "string list \<Rightarrow> string \<Rightarrow> nat" where
  "SearchStrings a x = Search 0 (length a) (\<lambda>i. a ! i \<ge> x)"

section \<open>The paged store: \<open>TextFileHandler\<close>\<close>

text \<open>
  The handler's state: the content of the backing file (the handler reads it through its
  open file and through its path, which name the same file), and the fields
  \<open>PageSize\<close>, \<open>PageCount\<close> and \<open>DeallocatedPages\<close>. The mutex is left out: the
  model runs one call at a time.
\<close>

record TextFileHandler =
  FileContent :: string
  PageSize :: int
  PageCount :: nat
  DeallocatedPages :: "nat list"

record PageHeader =
  PageLSN :: nat
  PageID :: nat
  PageType :: string

record Page =
  Header :: PageHeader
  Data :: "string \<rightharpoonup> string"

datatype error =
    InvalidPageID
  | PageNotFound
  | ScanError
  | Panic
  | NotADataPage
  | RecordNotFound
  | NonLeafRoot
  | KeyNotFound
  | AlreadyExists
  | RecordMissing

definition HeaderSection :: string where
  "HeaderSection = ''# DATABASE HEADER''"

definition PageSection :: string where
  "PageSection = ''# PAGE''"

definition DefaultPageSize :: int where
  "DefaultPageSize = 4096"

definition InitialContent :: string where
  "InitialContent =
     HeaderSection @ NL @ ''PAGESIZE=4096'' @ NL @ ''ENCODING=UTF-8'' @ NL
       @ ''VERSION=1.0'' @ NL @ ''PAGES=0'' @ NL @ NL"

text \<open>
  \<open>LoadMetadata\<close>: one line of the header. The result is \<open>None\<close> at the \<open>break\<close>
  (a line that starts a page section), else the flag \<open>InHeader\<close> and the handler.
\<close>

fun scan_dealloc :: "string list \<Rightarrow> nat list \<Rightarrow> nat list" where
  "scan_dealloc [] acc = acc"
| "scan_dealloc (p # ps) acc = scan_dealloc ps (acc @ [Sscanf_uint p 0])"

definition LoadMetadata_line :: "string \<Rightarrow> bool \<times> TextFileHandler \<Rightarrow> (bool \<times> TextFileHandler) option" where
  "LoadMetadata_line CurrentLine st =
     (case st of (InHeader, self) \<Rightarrow>
        if CurrentLine = HeaderSection then Some (True, self)
        else if HasPrefix CurrentLine PageSection then None
        else if InHeader \<and> CurrentLine \<noteq> [] then
          (case SplitN CurrentLine ''='' 2 of
             [k, v] \<Rightarrow>
               (let Key = TrimSpace k; Value = TrimSpace v
                in if Key = ''PAGESIZE'' then
                     Some (InHeader, self\<lparr>PageSize := Sscanf_int Value (PageSize self)\<rparr>)
                   else if Key = ''PAGES'' then
                     Some (InHeader, self\<lparr>PageCount := Sscanf_uint Value (PageCount self)\<rparr>)
                   else if Key = ''DEALLOCATED_PAGES'' then
                     Some (InHeader, self\<lparr>DeallocatedPages :=
                       scan_dealloc (Split Value '','') (DeallocatedPages self)\<rparr>)
                   else Some (InHeader, self))
           | _ \<Rightarrow> Some (InHeader, self))
        else Some (InHeader, self))"

fun LoadMetadata_loop :: "token list \<Rightarrow> bool \<times> TextFileHandler \<Rightarrow> error + TextFileHandler" where
  "LoadMetadata_loop [] st = Inr (snd st)"
| "LoadMetadata_loop (TooLong # ts) st = Inl ScanError"
| "LoadMetadata_loop (Line l # ts) st =
     (case LoadMetadata_line l st of
        None \<Rightarrow> Inr (snd st)
      | Some st' \<Rightarrow> LoadMetadata_loop ts st')"

definition LoadMetadata :: "TextFileHandler \<Rightarrow> error + TextFileHandler" where
  "LoadMetadata self = LoadMetadata_loop (Scanner (FileContent self)) (False, self)"

text \<open>
  \<open>NewTextFileHandler\<close>: the argument is the content of the file at the path, \<open>None\<close>
  when no file exists there.
\<close>

definition NewTextFileHandler :: "string option \<Rightarrow> error + TextFileHandler" where
  "NewTextFileHandler existing =
     LoadMetadata \<lparr>FileContent = (case existing of None \<Rightarrow> InitialContent | Some c \<Rightarrow> c),
                   PageSize = DefaultPageSize, PageCount = 0, DeallocatedPages = []\<rparr>"

definition PageIDMarker :: "nat \<Rightarrow> string" where
  "PageIDMarker pid = ''PageID: '' @ FormatUint pid"

text \<open>
  \<open>ReadPage\<close>: one line of the scan. The loop's variables are \<open>InTargetPage\<close>,
  \<open>PageFound\<close> and the page being filled; the result is \<open>None\<close> at the \<open>break\<close>.
\<close>

definition ReadPage_field :: "string \<Rightarrow> string \<Rightarrow> Page \<Rightarrow> Page" where
  "ReadPage_field Key Value pg =
     (if Key = ''LSN'' then
        pg\<lparr>Header := (Header pg)\<lparr>PageLSN := Sscanf_uint Value (PageLSN (Header pg))\<rparr>\<rparr>
      else if Key = ''Type'' then pg\<lparr>Header := (Header pg)\<lparr>PageType := Value\<rparr>\<rparr>
      else if Key = ''PageID'' then pg
      else pg\<lparr>Data := (Data pg)(Key \<mapsto> Value)\<rparr>)"

definition ReadPage_line :: "string \<Rightarrow> string \<Rightarrow> bool \<times> bool \<times> Page \<Rightarrow> (bool \<times> bool \<times> Page) option" where
  "ReadPage_line marker CurrentLine st =
     (case st of (InTargetPage, PageFound, pg) \<Rightarrow>
        if HasPrefix CurrentLine PageSection \<and> InTargetPage then None
        else
          (let hit = Contains CurrentLine marker;
               InTargetPage' = (hit \<or> (\<not> HasPrefix CurrentLine PageSection \<and> InTargetPage));
               PageFound' = (hit \<or> PageFound)
           in if InTargetPage' \<and> CurrentLine \<noteq> [] then
                (case SplitN CurrentLine '': '' 2 of
                   [k, v] \<Rightarrow>
                     Some (InTargetPage', PageFound', ReadPage_field (TrimSpace k) (TrimSpace v) pg)
                 | _ \<Rightarrow> Some (InTargetPage', PageFound', pg))
              else Some (InTargetPage', PageFound', pg)))"

text \<open>The loop returns \<open>PageFound\<close>, the page, and whether the scanner stopped on an error.\<close>

fun ReadPage_loop :: "string \<Rightarrow> token list \<Rightarrow> bool \<times> bool \<times> Page \<Rightarrow> bool \<times> Page \<times> bool" where
  "ReadPage_loop marker [] st = (fst (snd st), snd (snd st), False)"
| "ReadPage_loop marker (TooLong # ts) st = (fst (snd st), snd (snd st), True)"
| "ReadPage_loop marker (Line l # ts) st =
     (case ReadPage_line marker l st of
        None \<Rightarrow> (fst (snd st), snd (snd st), False)
      | Some st' \<Rightarrow> ReadPage_loop marker ts st')"

definition ReadPage :: "TextFileHandler \<Rightarrow> nat \<Rightarrow> error + Page" where
  "ReadPage self pid =
     (if pid = 0 \<or> pid > PageCount self then Inl InvalidPageID
      else
        (case ReadPage_loop (PageIDMarker pid) (Scanner (FileContent self))
                (False, False,
                 \<lparr>Header = \<lparr>PageLSN = 0, PageID = pid, PageType = []\<rparr>, Data = Map.empty\<rparr>) of
           (PageFound, pg, scan_err) \<Rightarrow>
             if \<not> PageFound then Inl PageNotFound
             else if scan_err then Inl ScanError
             else Inr pg))"

text \<open>
  \<open>WritePage\<close>. Go visits the entries of a map in an order it picks anew at each
  \<open>range\<close>; the argument \<open>order\<close> is the order of the keys this call's loop visits, a
  list of the keys of \<open>Data\<close> without repetition (\<open>iteration_order\<close>).
\<close>

definition iteration_order :: "string list \<Rightarrow> (string \<rightharpoonup> string) \<Rightarrow> bool" where
  "iteration_order order m = (distinct order \<and> set order = dom m)"

definition payload_line :: "(string \<rightharpoonup> string) \<Rightarrow> string \<Rightarrow> string" where
  "payload_line m Key = (case m Key of None \<Rightarrow> [] | Some Value \<Rightarrow> Key @ '': '' @ Value @ NL)"

definition NewPageContent :: "Page \<Rightarrow> string list \<Rightarrow> string" where
  "NewPageContent pg order =
     PageSection @ NL
       @ ''PageID: '' @ FormatUint (PageID (Header pg)) @ NL
       @ ''LSN: '' @ FormatUint (PageLSN (Header pg)) @ NL
       @ ''Type: '' @ PageType (Header pg) @ NL
       @ concat (map (payload_line (Data pg)) order)"

text \<open>
  The new content of the file before the page count is updated. When the marker is found
  but no \<open># PAGE\<close> stands before it, \<open>StartIndex\<close> is \<open>-1\<close> and the slice
  \<open>FileContent[:StartIndex]\<close> panics.
\<close>

definition place_page :: "string \<Rightarrow> string \<Rightarrow> string \<Rightarrow> error + string" where
  "place_page content marker new =
     (case Index content marker of
        None \<Rightarrow> Inr (content @ NL @ new)
      | Some i \<Rightarrow>
          (case LastIndex (take i content) PageSection of
             None \<Rightarrow> Inl Panic
           | Some StartIndex \<Rightarrow>
               (case Index (drop (StartIndex + length PageSection) content) PageSection of
                  Some e \<Rightarrow>
                    Inr (take StartIndex content @ new
                         @ drop (e + (StartIndex + length PageSection)) content)
                | None \<Rightarrow> Inr (take StartIndex content @ new))))"

definition WritePage :: "TextFileHandler \<Rightarrow> Page \<Rightarrow> string list \<Rightarrow> error option \<times> TextFileHandler" where
  "WritePage self pg order =
     (case place_page (FileContent self) (PageIDMarker (PageID (Header pg)))
             (NewPageContent pg order) of
        Inl e \<Rightarrow> (Some e, self)
      | Inr content \<Rightarrow>
          if PageID (Header pg) > PageCount self then
            (None, self\<lparr>PageCount := PageID (Header pg),
                         FileContent := Replace content (''PAGES='' @ FormatUint (PageCount self))
                           (''PAGES='' @ FormatUint (PageID (Header pg))) 1\<rparr>)
          else (None, self\<lparr>FileContent := content\<rparr>))"

text \<open>\<open>AllocatePage\<close> returns the new page and the handler; it writes nothing to the file.\<close>

definition AllocatePage :: "TextFileHandler \<Rightarrow> Page \<times> TextFileHandler" where
  "AllocatePage self =
     (case DeallocatedPages self of
        p # ps \<Rightarrow>
          (\<lparr>Header = \<lparr>PageLSN = 0, PageID = p, PageType = []\<rparr>, Data = Map.empty\<rparr>,
           self\<lparr>DeallocatedPages := ps\<rparr>)
      | [] \<Rightarrow>
          (\<lparr>Header = \<lparr>PageLSN = 0, PageID = (PageCount self + 1) mod 2 ^ 64, PageType = []\<rparr>,
            Data = Map.empty\<rparr>,
           self\<lparr>PageCount := (PageCount self + 1) mod 2 ^ 64\<rparr>))"

section \<open>Records on a data page\<close>

record Record =
  EntryIndex :: nat
  Fields :: "string list"

text \<open>\<open>AddRecord\<close> returns the entry index, the page and the record as it leaves them.\<close>

definition AddRecord :: "Page \<Rightarrow> Record \<Rightarrow> error + (nat \<times> Page \<times> Record)" where
  "AddRecord self rec =
     (if PageType (Header self) \<noteq> ''Data'' then Inl NotADataPage
      else
        (let idx0 = (case Data self ''EntryIndex'' of None \<Rightarrow> 0 | Some e \<Rightarrow> Sscanf_uint e 0);
             idx = (idx0 + 1) mod 2 ^ 64
         in Inr (idx,
                 self\<lparr>Data := (Data self)(''EntryIndex'' \<mapsto> FormatUint idx,
                          ''Entry-'' @ FormatUint idx \<mapsto> Join (Fields rec) ''|'')\<rparr>,
                 rec\<lparr>EntryIndex := idx\<rparr>)))"

definition GetRecord :: "Page \<Rightarrow> nat \<Rightarrow> error + Record" where
  "GetRecord self idx =
     (if PageType (Header self) \<noteq> ''Data'' then Inl NotADataPage
      else case Data self (''Entry-'' @ FormatUint idx) of
        None \<Rightarrow> Inl RecordNotFound
      | Some RecordString \<Rightarrow> Inr \<lparr>EntryIndex = idx, Fields = Split RecordString ''|''\<rparr>)"

definition DeleteRecord :: "Page \<Rightarrow> nat \<Rightarrow> error + Page" where
  "DeleteRecord self idx =
     (if PageType (Header self) \<noteq> ''Data'' then Inl NotADataPage
      else case Data self (''Entry-'' @ FormatUint idx) of
        None \<Rightarrow> Inl RecordNotFound
      | Some _ \<Rightarrow> Inr (self\<lparr>Data := (Data self)(''Entry-'' @ FormatUint idx := None)\<rparr>))"

section \<open>The index: \<open>BPlusTree\<close>\<close>

definition BTreeOrder :: nat where
  "BTreeOrder = 4"

record BPlusTree =
  RootPageID :: nat
  FileHandler :: TextFileHandler

record BTreeNode =
  Page :: Page
  IsLeaf :: bool
  Keys :: "string list"
  Children :: "nat list"
  Pointers :: "string list"
  NextLeaf :: nat

definition readNode :: "BPlusTree \<Rightarrow> nat \<Rightarrow> error + BTreeNode" where
  "readNode tree pid =
     (case ReadPage (FileHandler tree) pid of
        Inl e \<Rightarrow> Inl e
      | Inr pg \<Rightarrow>
          Inr \<lparr>Page = pg,
               IsLeaf = ParseBool (case Data pg ''IsLeaf'' of None \<Rightarrow> [] | Some b \<Rightarrow> b),
               Keys = (case Data pg ''Keys'' of
                         None \<Rightarrow> []
                       | Some keys \<Rightarrow> if keys \<noteq> [] then Split keys '','' else []),
               Children = [],
               Pointers = (case Data pg ''Pointers'' of
                             None \<Rightarrow> []
                           | Some pointers \<Rightarrow> if pointers \<noteq> [] then Split pointers '','' else []),
               NextLeaf = 0\<rparr>)"

definition writeNode :: "BPlusTree \<Rightarrow> BTreeNode \<Rightarrow> string list \<Rightarrow> error option \<times> BPlusTree" where
  "writeNode tree node order =
     (case WritePage (FileHandler tree)
             ((Page node)\<lparr>Data := (Data (Page node))
                (''IsLeaf'' \<mapsto> FormatBool (IsLeaf node),
                 ''Keys'' \<mapsto> Join (Keys node) '','',
                 ''Pointers'' \<mapsto> Join (Pointers node) '','')\<rparr>) order of
        (err, fh) \<Rightarrow> (err, tree\<lparr>FileHandler := fh\<rparr>))"

text \<open>
  \<open>NewBPlusTree\<close>: the root is page 1 when it can be read, else a page is allocated,
  made an empty leaf and written.
\<close>

definition NewBPlusTree :: "TextFileHandler \<Rightarrow> string list \<Rightarrow> error + BPlusTree" where
  "NewBPlusTree fh order =
     (case ReadPage fh 1 of
        Inr RootPage \<Rightarrow> Inr \<lparr>RootPageID = PageID (Header RootPage), FileHandler = fh\<rparr>
      | Inl _ \<Rightarrow>
          (case AllocatePage fh of (RootPage, fh1) \<Rightarrow>
             (case WritePage fh1
                     (RootPage\<lparr>Header := (Header RootPage)\<lparr>PageType := ''Index''\<rparr>,
                               Data := (Data RootPage)(''IsLeaf'' \<mapsto> ''true'', ''Keys'' \<mapsto> [],
                                                      ''Pointers'' \<mapsto> [])\<rparr>) order of
                (Some e, _) \<Rightarrow> Inl e
              | (None, fh2) \<Rightarrow>
                  Inr \<lparr>RootPageID = PageID (Header RootPage), FileHandler = fh2\<rparr>)))"

text \<open>
  \<open>Insert\<close>. The slice expression \<open>Pointers[:insertIndex]\<close> panics when the index
  exceeds the capacity of \<open>Pointers\<close>, which for a slice that \<open>strings.Split\<close> made (or
  a nil slice) is its length.
\<close>

definition BPlusTree_Insert :: "BPlusTree \<Rightarrow> string \<Rightarrow> nat \<Rightarrow> nat \<Rightarrow> string list \<Rightarrow> error option \<times> BPlusTree" where
  "BPlusTree_Insert tree key pageID entryIndex order =
     (case readNode tree (RootPageID tree) of
        Inl e \<Rightarrow> (Some e, tree)
      | Inr RootNode \<Rightarrow>
          if IsLeaf RootNode \<and> length (Keys RootNode) < BTreeOrder - 1 then
            (let pointer = FormatUint pageID @ '':'' @ FormatUint entryIndex;
                 insertIndex = SearchStrings (Keys RootNode) key
             in if insertIndex > length (Pointers RootNode) then (Some Panic, tree)
                else writeNode tree
                       (RootNode\<lparr>Keys := take insertIndex (Keys RootNode) @ [key]
                                           @ drop insertIndex (Keys RootNode),
                                 Pointers := take insertIndex (Pointers RootNode) @ [pointer]
                                           @ drop insertIndex (Pointers RootNode)\<rparr>) order)
          else (None, tree))"

text \<open>The index of the first key equal to \<open>key\<close>: the loops of \<open>Find\<close> and \<open>Delete\<close>.\<close>

fun first_index :: "string list \<Rightarrow> string \<Rightarrow> nat option" where
  "first_index [] key = None"
| "first_index (k # ks) key = (if k = key then Some 0 else map_option Suc (first_index ks key))"

text \<open>
  \<open>Find\<close> returns \<open>(0, 0)\<close> and no error for a key the root leaf does not hold.
  \<open>Pointers[i]\<close> and \<open>parts[1]\<close> panic when out of range.
\<close>

definition Find :: "BPlusTree \<Rightarrow> string \<Rightarrow> error + (nat \<times> nat)" where
  "Find tree key =
     (case readNode tree (RootPageID tree) of
        Inl e \<Rightarrow> Inl e
      | Inr Node \<Rightarrow>
          if \<not> IsLeaf Node then Inl NonLeafRoot
          else case first_index (Keys Node) key of
            None \<Rightarrow> Inr (0, 0)
          | Some i \<Rightarrow>
              if i \<ge> length (Pointers Node) then Inl Panic
              else case Split (Pointers Node ! i) '':'' of
                p0 # p1 # _ \<Rightarrow> Inr (ParseUint p0 32, ParseUint p1 32)
              | _ \<Rightarrow> Inl Panic)"

definition BPlusTree_Delete :: "BPlusTree \<Rightarrow> string \<Rightarrow> string list \<Rightarrow> error option \<times> BPlusTree" where
  "BPlusTree_Delete tree key order =
     (case readNode tree (RootPageID tree) of
        Inl e \<Rightarrow> (Some e, tree)
      | Inr Node \<Rightarrow>
          if \<not> IsLeaf Node then (Some NonLeafRoot, tree)
          else case first_index (Keys Node) key of
            Some foundIndex \<Rightarrow>
              if foundIndex \<ge> length (Pointers Node) then (Some Panic, tree)
              else writeNode tree
                     (Node\<lparr>Keys := take foundIndex (Keys Node) @ drop (foundIndex + 1) (Keys Node),
                           Pointers := take foundIndex (Pointers Node)
                                     @ drop (foundIndex + 1) (Pointers Node)\<rparr>) order
          | None \<Rightarrow> (Some KeyNotFound, tree))"

section \<open>The \<open>Database\<close>\<close>

text \<open>
  \<open>db.FileHandler\<close> and \<open>db.Index.FileHandler\<close> point to the same handler; the model
  keeps it once, in the index. The lock is left out.
\<close>

record Database =
  Index_of :: BPlusTree

definition OpenDatabase :: "string option \<Rightarrow> string list \<Rightarrow> error + Database" where
  "OpenDatabase existing order =
     (case NewTextFileHandler existing of
        Inl e \<Rightarrow> Inl e
      | Inr fh \<Rightarrow>
          (case NewBPlusTree fh order of
             Inl e \<Rightarrow> Inl e
           | Inr tree \<Rightarrow> Inr \<lparr>Index_of = tree\<rparr>))"

text \<open>
  \<open>Insert\<close> drops the error of \<open>Find\<close> and looks at the page id only. \<open>order1\<close> is
  the iteration order of the write of the data page, \<open>order2\<close> that of the index page.
\<close>

definition Database_Insert :: "Database \<Rightarrow> string \<Rightarrow> string \<Rightarrow> string list \<Rightarrow> string list \<Rightarrow> error option \<times> Database" where
  "Database_Insert db ID Data' order1 order2 =
     (case Find (Index_of db) ID of
        Inl Panic \<Rightarrow> (Some Panic, db)
      | _ \<Rightarrow>
        if (case Find (Index_of db) ID of Inr (pageID, _) \<Rightarrow> pageID \<noteq> 0 | Inl _ \<Rightarrow> False)
        then (Some AlreadyExists, db)
        else
          (case AllocatePage (FileHandler (Index_of db)) of (pg, fh1) \<Rightarrow>
             (case AddRecord (pg\<lparr>Header := (Header pg)\<lparr>PageType := ''Data''\<rparr>\<rparr>)
                     \<lparr>EntryIndex = 0, Fields = [ID, Data']\<rparr> of
                Inl e \<Rightarrow> (Some e, \<lparr>Index_of = (Index_of db)\<lparr>FileHandler := fh1\<rparr>\<rparr>)
              | Inr (idx, DataPage, _) \<Rightarrow>
                  (case WritePage fh1 DataPage order1 of
                     (Some e, fh2) \<Rightarrow> (Some e, \<lparr>Index_of = (Index_of db)\<lparr>FileHandler := fh2\<rparr>\<rparr>)
                   | (None, fh2) \<Rightarrow>
                       (case BPlusTree_Insert ((Index_of db)\<lparr>FileHandler := fh2\<rparr>) ID
                               (PageID (Header DataPage)) idx order2 of
                          (err, tree) \<Rightarrow> (err, \<lparr>Index_of = tree\<rparr>))))))"

text \<open>\<open>Get\<close> returns \<open>nil, nil\<close> (here \<open>Inr None\<close>) when \<open>Find\<close> gives page 0.\<close>

definition Get :: "Database \<Rightarrow> string \<Rightarrow> error + Record option" where
  "Get db ID =
     (case Find (Index_of db) ID of
        Inl e \<Rightarrow> Inl e
      | Inr (pid, idx) \<Rightarrow>
          if pid = 0 then Inr None
          else case ReadPage (FileHandler (Index_of db)) pid of
            Inl e \<Rightarrow> Inl e
          | Inr DataPage \<Rightarrow>
              (case GetRecord DataPage idx of Inl e \<Rightarrow> Inl e | Inr r \<Rightarrow> Inr (Some r)))"

definition Database_Delete :: "Database \<Rightarrow> string \<Rightarrow> string list \<Rightarrow> string list \<Rightarrow> error option \<times> Database" where
  "Database_Delete db ID order1 order2 =
     (case Find (Index_of db) ID of
        Inl e \<Rightarrow> (Some e, db)
      | Inr (pid, idx) \<Rightarrow>
          if pid = 0 then (Some RecordMissing, db)
          else case ReadPage (FileHandler (Index_of db)) pid of
            Inl e \<Rightarrow> (Some e, db)
          | Inr DataPage \<Rightarrow>
              (case DeleteRecord DataPage idx of
                 Inl e \<Rightarrow> (Some e, db)
               | Inr DataPage' \<Rightarrow>
                   (case WritePage (FileHandler (Index_of db)) DataPage' order1 of
                      (Some e, fh) \<Rightarrow> (Some e, \<lparr>Index_of = (Index_of db)\<lparr>FileHandler := fh\<rparr>\<rparr>)
                    | (None, fh) \<Rightarrow>
                        (case BPlusTree_Delete ((Index_of db)\<lparr>FileHandler := fh\<rparr>) ID order2 of
                           (err, tree) \<Rightarrow> (err, \<lparr>Index_of = tree\<rparr>)))))"

section \<open>Notions the theorems are stated with\<close>

text \<open>The text of a list of lines, each followed by a newline.\<close>

definition unlines :: "string list \<Rightarrow> string" where
  "unlines ls = concat (map (\<lambda>l. l @ NL) ls)"

text \<open>
  A line that \<open>Scanner\<close> returns as it is: no newline in it, shorter than the
  limit, no carriage return at its end.
\<close>

definition scannable :: "string \<Rightarrow> bool" where
  "scannable l = (CHR 0x0A \<notin> set l \<and> length l < MaxScanTokenSize \<and> dropCR l = l)"

text \<open>The printable ASCII characters other than the space.\<close>

definition graphic :: "char \<Rightarrow> bool" where
  "graphic c = (33 \<le> (of_char c :: nat) \<and> (of_char c :: nat) \<le> 126)"

text \<open>
  A payload key that the text format keeps: \<open>ReadPage\<close> cuts a line at the
  first \<open>: \<close>, trims both parts and takes three names for the header.
\<close>

definition field_key :: "string \<Rightarrow> bool" where
  "field_key k = (CHR '' '' \<notin> set k \<and> CHR 0x0A \<notin> set k \<and> TrimSpace k = k
      \<and> k \<noteq> ''LSN'' \<and> k \<noteq> ''Type'' \<and> k \<noteq> ''PageID'')"

text \<open>
  A value that the text format keeps: one line, nothing for \<open>TrimSpace\<close> to
  remove.
\<close>

definition field_value :: "string \<Rightarrow> bool" where
  "field_value v = (CHR 0x0A \<notin> set v \<and> TrimSpace v = v)"

text \<open>The payload as the loop stores it, entry by entry.\<close>

definition payload_lines :: "(string \<rightharpoonup> string) \<Rightarrow> string list \<Rightarrow> string list" where
  "payload_lines m order = map (\<lambda>k. k @ '': '' @ the (m k)) order"

fun store_all :: "(string \<rightharpoonup> string) \<Rightarrow> (string \<rightharpoonup> string) \<Rightarrow> string list \<Rightarrow> (string \<rightharpoonup> string)" where
  "store_all m d [] = d"
| "store_all m d (k # ks) = store_all m (d(k \<mapsto> the (m k))) ks"

text \<open>
  A page that the text format keeps: an LSN that fits \<open>uint64\<close>, and a type,
  keys and values as above.
\<close>

definition clean_page :: "Page \<Rightarrow> bool" where
  "clean_page pg =
     (PageLSN (Header pg) < 2 ^ 64 \<and> field_value (PageType (Header pg))
      \<and> (\<forall>k\<in>dom (Data pg). field_key k \<and> field_value (the (Data pg k))))"

text \<open>
  The lines \<open>WritePage\<close> writes for a page after the line \<open>#
  PAGE\<close>.
\<close>

definition page_lines :: "Page \<Rightarrow> string list \<Rightarrow> string list" where
  "page_lines pg order =
     [PageIDMarker (PageID (Header pg)),
      ''LSN: '' @ FormatUint (PageLSN (Header pg)),
      ''Type: '' @ PageType (Header pg)] @ payload_lines (Data pg) order"

text \<open>The page \<open>ReadPage\<close> starts from.\<close>

definition blank_page :: "nat \<Rightarrow> Page" where
  "blank_page pid = \<lparr>Header = \<lparr>PageLSN = 0, PageID = pid, PageType = []\<rparr>, Data = Map.empty\<rparr>"

text \<open>
  The lines of \<open>InitialContent\<close> and the empty line \<open>WritePage\<close>
  puts before the first page.
\<close>

definition header_lines :: "string list" where
  "header_lines = [HeaderSection, ''PAGESIZE=4096'', ''ENCODING=UTF-8'', ''VERSION=1.0'',
                   ''PAGES=0'', [], []]"

text \<open>A text of printable ASCII characters without space.\<close>

definition graphic_text :: "string \<Rightarrow> bool" where
  "graphic_text s = (\<forall>c\<in>set s. graphic c)"

text \<open>
  The root page of a leaf whose keys and pointers are joined to the texts \<open>K\<close>
  and \<open>Q\<close>.
\<close>

definition root_page :: "string \<Rightarrow> string \<Rightarrow> Page" where
  "root_page K Q =
     \<lparr>Header = \<lparr>PageLSN = 0, PageID = 1, PageType = ''Index''\<rparr>,
      Data = [''IsLeaf'' \<mapsto> ''true'', ''Keys'' \<mapsto> K, ''Pointers'' \<mapsto> Q]\<rparr>"

text \<open>The file of a store that holds the root page and nothing else.\<close>

definition root_file :: "string \<Rightarrow> string \<Rightarrow> string list \<Rightarrow> string" where
  "root_file K Q order = InitialContent @ NL @ NewPageContent (root_page K Q) order"

text \<open>
  Three keys of this length and two commas stay below the line limit of the scanner.
\<close>

definition MaxKeyLength :: nat where
  "MaxKeyLength = 21842"

text \<open>
  The keys the root page can hold one by one: not empty, printable ASCII without space and
  comma, bounded in length.
\<close>

definition index_key :: "string \<Rightarrow> bool" where
  "index_key k = (k \<noteq> [] \<and> (\<forall>c\<in>set k. graphic c \<and> c \<noteq> CHR '','') \<and> length k \<le> MaxKeyLength)"

text \<open>The pointer as \<open>Insert\<close> writes it.\<close>

definition pointer_text :: "nat \<times> nat \<Rightarrow> string" where
  "pointer_text p = FormatUint (fst p) @ '':'' @ FormatUint (snd p)"

text \<open>
  A pointer that \<open>Find\<close> reads back unchanged: it parses both numbers with 32
  bits.
\<close>

definition index_pointer :: "nat \<times> nat \<Rightarrow> bool" where
  "index_pointer p = (fst p < 2 ^ 32 \<and> snd p < 2 ^ 32)"

text \<open>A pointer of two \<open>uint\<close> values.\<close>

definition uint_pointer :: "nat \<times> nat \<Rightarrow> bool" where
  "uint_pointer p = (fst p < 2 ^ 64 \<and> snd p < 2 ^ 64)"

text \<open>
  The store holds exactly the root leaf with the given keys and pointer strings: the file is
  the initial header followed by the one page section, in some iteration order.
\<close>

definition leaf_store :: "BPlusTree \<Rightarrow> string list \<Rightarrow> string list \<Rightarrow> bool" where
  "leaf_store tree ks ps =
     (RootPageID tree = 1 \<and> 1 \<le> PageCount (FileHandler tree)
      \<and> (\<exists>order. iteration_order order (Data (root_page (Join ks '','') (Join ps '','')))
            \<and> FileContent (FileHandler tree)
                = root_file (Join ks '','') (Join ps '','') order))"

text \<open>The node \<open>readNode\<close> decodes from that root page.\<close>

definition leaf_node :: "string list \<Rightarrow> string list \<Rightarrow> BTreeNode" where
  "leaf_node ks ps =
     \<lparr>Page = root_page (Join ks '','') (Join ps '',''), IsLeaf = True, Keys = ks, Children = [],
      Pointers = ps, NextLeaf = 0\<rparr>"

text \<open>Texts of at most three comma-free, non-empty graphic strings.\<close>

definition entries :: "nat \<Rightarrow> string list \<Rightarrow> bool" where
  "entries n xs =
     (length xs \<le> 3 \<and> (\<forall>x\<in>set xs. x \<noteq> [] \<and> graphic_text x \<and> CHR '','' \<notin> set x \<and> length x \<le> n))"

text \<open>An order in which a write can visit the three entries of the root page.\<close>

definition root_order :: "string list \<Rightarrow> bool" where
  "root_order order = (distinct order \<and> set order = {''IsLeaf'', ''Keys'', ''Pointers''})"

text \<open>
  The store holds exactly the root leaf with the entries \<open>kvs\<close>, at most three,
  in strictly ascending order of their keys.
\<close>

definition stored :: "BPlusTree \<Rightarrow> (string \<times> nat \<times> nat) list \<Rightarrow> bool" where
  "stored tree kvs =
     (leaf_store tree (map fst kvs) (map (pointer_text \<circ> snd) kvs) \<and> length kvs \<le> 3
      \<and> (\<forall>e\<in>set kvs. index_key (fst e) \<and> uint_pointer (snd e))
      \<and> sorted_wrt (<) (map fst kvs))"

text \<open>The entry put at the place the binary search gives.\<close>

definition ins_entry :: "string \<Rightarrow> nat \<times> nat \<Rightarrow> (string \<times> nat \<times> nat) list \<Rightarrow> (string \<times> nat \<times> nat) list" where
  "ins_entry key p kvs =
     take (SearchStrings (map fst kvs) key) kvs @ [(key, p)]
       @ drop (SearchStrings (map fst kvs) key) kvs"

text \<open>The first entry of the key taken out.\<close>

definition del_entry :: "string \<Rightarrow> (string \<times> nat \<times> nat) list \<Rightarrow> (string \<times> nat \<times> nat) list" where
  "del_entry key kvs =
     (case first_index (map fst kvs) key of
        None \<Rightarrow> kvs
      | Some i \<Rightarrow> take i kvs @ drop (Suc i) kvs)"

text \<open>The handler \<open>NewTextFileHandler\<close> returns when no file exists.\<close>

definition fresh_handler :: TextFileHandler where
  "fresh_handler = \<lparr>FileContent = InitialContent, PageSize = 4096, PageCount = 0, DeallocatedPages = []\<rparr>"

text \<open>
  The index \<open>NewBPlusTree\<close> returns on that handler; \<open>order\<close> is
  the order of its write of the root page.
\<close>

definition empty_tree :: "string list \<Rightarrow> BPlusTree" where
  "empty_tree order =
     \<lparr>RootPageID = 1,
      FileHandler = \<lparr>FileContent = root_file [] [] order, PageSize = 4096, PageCount = 1,
                     DeallocatedPages = []\<rparr>\<rparr>"

datatype op = Insert_op string nat nat | Delete_op string

text \<open>One call on the index, with the iteration order its write uses; the error is dropped.\<close>

fun apply_op :: "BPlusTree \<Rightarrow> op \<times> string list \<Rightarrow> BPlusTree" where
  "apply_op tree (Insert_op key pageID entryIndex, order) =
     snd (BPlusTree_Insert tree key pageID entryIndex order)"
| "apply_op tree (Delete_op key, order) = snd (BPlusTree_Delete tree key order)"

text \<open>The calls of a list, one after the other.\<close>

fun run :: "BPlusTree \<Rightarrow> (op \<times> string list) list \<Rightarrow> BPlusTree" where
  "run tree [] = tree"
| "run tree (x # xs) = run (apply_op tree x) xs"

text \<open>What the calls are meant to leave in the index: a map from keys to pointers.\<close>

fun model :: "(string \<rightharpoonup> nat \<times> nat) \<Rightarrow> op list \<Rightarrow> (string \<rightharpoonup> nat \<times> nat)" where
  "model m [] = m"
| "model m (Insert_op key pageID entryIndex # xs) = model (m(key \<mapsto> (pageID, entryIndex))) xs"
| "model m (Delete_op key # xs) = model (m(key := None)) xs"

text \<open>One of the orders a write of the root page can take.\<close>

definition index_order :: "string list" where
  "index_order = [''IsLeaf'', ''Keys'', ''Pointers'']"

text \<open>Three inserts that fill the root leaf.\<close>

definition three_inserts :: "(op \<times> string list) list" where
  "three_inserts = [(Insert_op ''a'' 2 1, index_order), (Insert_op ''b'' 3 1, index_order),
                    (Insert_op ''c'' 4 1, index_order)]"

text \<open>What one call leaves in a root leaf that held \<open>kvs\<close>.\<close>

fun step_entries :: "(string \<times> nat \<times> nat) list \<Rightarrow> op \<Rightarrow> (string \<times> nat \<times> nat) list" where
  "step_entries kvs (Insert_op key pageID entryIndex) =
     (if length kvs < BTreeOrder - 1 then ins_entry key (pageID, entryIndex) kvs else kvs)"
| "step_entries kvs (Delete_op key) = del_entry key kvs"

text \<open>The root node as \<open>readNode\<close> decodes it: leaf flag, keys, pointers, children.\<close>

definition root_view :: "BPlusTree \<Rightarrow> error + bool \<times> string list \<times> string list \<times> nat list" where
  "root_view tree =
     (case readNode tree (RootPageID tree) of
        Inl e \<Rightarrow> Inl e
      | Inr node \<Rightarrow> Inr (IsLeaf node, Keys node, Pointers node, Children node))"

text \<open>The keys of the root node, none when it cannot be read.\<close>

definition root_keys :: "BPlusTree \<Rightarrow> string list" where
  "root_keys tree = (case readNode tree (RootPageID tree) of Inl _ \<Rightarrow> [] | Inr node \<Rightarrow> Keys node)"

text \<open>
  A sequence of calls in which every inserted key is an index key that the root does not
  hold when the call arrives, every pointer is a pair of \<open>uint\<close>, and every write uses an
  iteration order of the three entries of the root page.
\<close>

fun inserts_new_keys :: "BPlusTree \<Rightarrow> (op \<times> string list) list \<Rightarrow> bool" where
  "inserts_new_keys tree [] = True"
| "inserts_new_keys tree ((Insert_op key pageID entryIndex, order) # xs) =
     (index_key key \<and> uint_pointer (pageID, entryIndex) \<and> root_order order
      \<and> key \<notin> set (root_keys tree)
      \<and> inserts_new_keys (apply_op tree (Insert_op key pageID entryIndex, order)) xs)"
| "inserts_new_keys tree ((Delete_op key, order) # xs) =
     (root_order order \<and> inserts_new_keys (apply_op tree (Delete_op key, order)) xs)"

text \<open>
  A sequence of calls on distinct keys that the root leaf can hold: against the map \<open>m\<close> of
  the keys present, every inserted key is an index key that is not present, arrives when
  fewer than \<open>BTreeOrder - 1\<close> keys are present, and comes with a pointer of two 32-bit
  numbers.
\<close>

fun admissible :: "(string \<rightharpoonup> nat \<times> nat) \<Rightarrow> (op \<times> string list) list \<Rightarrow> bool" where
  "admissible m [] = True"
| "admissible m ((Insert_op key pageID entryIndex, order) # xs) =
     (index_key key \<and> index_pointer (pageID, entryIndex) \<and> root_order order
      \<and> key \<notin> dom m \<and> card (dom m) < BTreeOrder - 1
      \<and> admissible (m(key \<mapsto> (pageID, entryIndex))) xs)"
| "admissible m ((Delete_op key, order) # xs) =
     (root_order order \<and> admissible (m(key := None)) xs)"

text \<open>The five inserts of Scenario A, each with the order of its write.\<close>

definition five_inserts :: "string list \<Rightarrow> string list \<Rightarrow> string list \<Rightarrow> string list \<Rightarrow> string list \<Rightarrow> (op \<times> string list) list" where
  "five_inserts o1 o2 o3 o4 o5 =
     [(Insert_op ''a'' 2 1, o1), (Insert_op ''b'' 3 1, o2), (Insert_op ''c'' 4 1, o3),
      (Insert_op ''d'' 5 1, o4), (Insert_op ''e'' 6 1, o5)]"

text \<open>A file of one page, the root, which is not a leaf.\<close>

definition inner_root_file :: string where
  "inner_root_file = unlines [''# DATABASE HEADER'', ''PAGESIZE=4096'', ''ENCODING=UTF-8'',
     ''VERSION=1.0'', ''PAGES=1'', [], ''# PAGE'', ''PageID: 1'', ''LSN: 0'', ''Type: Index'',
     ''IsLeaf: false'', ''Keys: m'']"

text \<open>The index \<open>NewBPlusTree\<close> returns on that file.\<close>

definition inner_root_tree :: BPlusTree where
  "inner_root_tree =
     \<lparr>RootPageID = 1,
      FileHandler = \<lparr>FileContent = inner_root_file, PageSize = 4096, PageCount = 1,
                     DeallocatedPages = []\<rparr>\<rparr>"

text \<open>The node \<open>readNode\<close> decodes from its root page.\<close>

definition inner_root_node :: BTreeNode where
  "inner_root_node =
     \<lparr>Page = \<lparr>Header = \<lparr>PageLSN = 0, PageID = 1, PageType = ''Index''\<rparr>,
              Data = [''IsLeaf'' \<mapsto> ''false'', ''Keys'' \<mapsto> ''m'']\<rparr>,
      IsLeaf = False, Keys = [''m''], Children = [], Pointers = [], NextLeaf = 0\<rparr>"

text \<open>The entries the root leaf holds after a sequence of calls on the empty index.\<close>

definition entries_after :: "op list \<Rightarrow> (string \<times> nat \<times> nat) list" where
  "entries_after ops = foldl step_entries [] ops"

text \<open>A file whose header counts five pages and lists page 5 as free.\<close>

definition freed_page_file :: string where
  "freed_page_file = unlines [''# DATABASE HEADER'', ''PAGESIZE=4096'', ''ENCODING=UTF-8'',
     ''VERSION=1.0'', ''PAGES=5'', ''DEALLOCATED_PAGES=5'', []]"

text \<open>The handler \<open>NewTextFileHandler\<close> returns on that file.\<close>

definition freed_page_handler :: TextFileHandler where
  "freed_page_handler =
     \<lparr>FileContent = freed_page_file, PageSize = 4096, PageCount = 5, DeallocatedPages = [5]\<rparr>"

text \<open>Page 5 in use: a data page with one record.\<close>

definition page_five :: Page where
  "page_five = \<lparr>Header = \<lparr>PageLSN = 0, PageID = 5, PageType = ''Data''\<rparr>,
                 Data = [''EntryIndex'' \<mapsto> ''1'', ''Entry-1'' \<mapsto> ''k|X'']\<rparr>"

text \<open>The file after page 5 has been written.\<close>

definition page_five_file :: string where
  "page_five_file = unlines [''# DATABASE HEADER'', ''PAGESIZE=4096'', ''ENCODING=UTF-8'',
     ''VERSION=1.0'', ''PAGES=5'', ''DEALLOCATED_PAGES=5'', [], [], ''# PAGE'', ''PageID: 5'',
     ''LSN: 0'', ''Type: Data'', ''EntryIndex: 1'', ''Entry-1: k|X'']"

text \<open>
  A file whose header counts ten pages and that holds the section of page 10 only.
\<close>

definition page_ten_file :: string where
  "page_ten_file = unlines [''# DATABASE HEADER'', ''PAGESIZE=4096'', ''ENCODING=UTF-8'',
     ''VERSION=1.0'', ''PAGES=10'', [], ''# PAGE'', ''PageID: 10'', ''LSN: 0'', ''Type: Data'',
     ''EntryIndex: 1'', ''Entry-1: k|X'']"

text \<open>The handler \<open>NewTextFileHandler\<close> returns on that file.\<close>

definition page_ten_handler :: TextFileHandler where
  "page_ten_handler =
     \<lparr>FileContent = page_ten_file, PageSize = 4096, PageCount = 10, DeallocatedPages = []\<rparr>"

text \<open>
  The order in which the write of a data page with one record visits its two entries.
\<close>

definition record_order :: "string list" where
  "record_order = [''EntryIndex'', ''Entry-1'']"

text \<open>
  The file of a new database after the record of \<open>user:1\<close> has been inserted.
\<close>

definition user_file :: string where
  "user_file = unlines [''# DATABASE HEADER'', ''PAGESIZE=4096'', ''ENCODING=UTF-8'',
     ''VERSION=1.0'', ''PAGES=0'', [], [], ''# PAGE'', ''PageID: 1'', ''LSN: 0'', ''Type: Index'',
     ''IsLeaf: true'', ''Keys: user:1'', ''Pointers: 2:1'', ''# PAGE'', ''PageID: 2'', ''LSN: 0'',
     ''Type: Data'', ''EntryIndex: 1'', ''Entry-1: user:1|X'']"

text \<open>The database on that file.\<close>

definition user_db :: Database where
  "user_db =
     \<lparr>Index_of = \<lparr>RootPageID = 1,
                  FileHandler = \<lparr>FileContent = user_file, PageSize = 4096, PageCount = 2,
                                 DeallocatedPages = []\<rparr>\<rparr>\<rparr>"

text \<open>The database \<open>OpenDatabase\<close> returns when no file exists.\<close>

definition new_db :: Database where
  "new_db = \<lparr>Index_of = empty_tree index_order\<rparr>"

text \<open>The file after the data page has been written, before the index is.\<close>

definition user_file_1 :: string where
  "user_file_1 = unlines [''# DATABASE HEADER'', ''PAGESIZE=4096'', ''ENCODING=UTF-8'',
     ''VERSION=1.0'', ''PAGES=0'', [], [], ''# PAGE'', ''PageID: 1'', ''LSN: 0'', ''Type: Index'',
     ''IsLeaf: true'', ''Keys: '', ''Pointers: '', [], ''# PAGE'', ''PageID: 2'', ''LSN: 0'',
     ''Type: Data'', ''EntryIndex: 1'', ''Entry-1: user:1|X'']"

text \<open>The handler on that file.\<close>

definition user_handler_1 :: TextFileHandler where
  "user_handler_1 =
     \<lparr>FileContent = user_file_1, PageSize = 4096, PageCount = 2, DeallocatedPages = []\<rparr>"

text \<open>
  The files and the databases of five calls of \<open>Database.Insert\<close> on a new database:
  the keys \<open>a\<close>, \<open>b\<close>, \<open>c\<close>, then twice \<open>user:1\<close>. The file \<open>file_mid_n\<close> is the file of
  call \<open>n\<close> after its data page has been written and before the index is.
\<close>

definition file_mid_0 :: string where
  "file_mid_0 = unlines [''# DATABASE HEADER'', ''PAGESIZE=4096'', ''ENCODING=UTF-8'', ''VERSION=1.0'',
     ''PAGES=0'', [], [], ''# PAGE'', ''PageID: 1'', ''LSN: 0'', ''Type: Index'',
     ''IsLeaf: true'', ''Keys: '', ''Pointers: '', [], ''# PAGE'', ''PageID: 2'', ''LSN: 0'',
     ''Type: Data'', ''EntryIndex: 1'', ''Entry-1: a|A'']"

definition file_a :: string where
  "file_a = unlines [''# DATABASE HEADER'', ''PAGESIZE=4096'', ''ENCODING=UTF-8'', ''VERSION=1.0'',
     ''PAGES=0'', [], [], ''# PAGE'', ''PageID: 1'', ''LSN: 0'', ''Type: Index'',
     ''IsLeaf: true'', ''Keys: a'', ''Pointers: 2:1'', ''# PAGE'', ''PageID: 2'', ''LSN: 0'',
     ''Type: Data'', ''EntryIndex: 1'', ''Entry-1: a|A'']"

definition db_a :: Database where
  "db_a =
     \<lparr>Index_of = \<lparr>RootPageID = 1,
                  FileHandler = \<lparr>FileContent = file_a, PageSize = 4096, PageCount = 2, DeallocatedPages = []\<rparr>\<rparr>\<rparr>"

definition file_mid_1 :: string where
  "file_mid_1 = unlines [''# DATABASE HEADER'', ''PAGESIZE=4096'', ''ENCODING=UTF-8'', ''VERSION=1.0'',
     ''PAGES=0'', [], [], ''# PAGE'', ''PageID: 1'', ''LSN: 0'', ''Type: Index'',
     ''IsLeaf: true'', ''Keys: a'', ''Pointers: 2:1'', ''# PAGE'', ''PageID: 2'', ''LSN: 0'',
     ''Type: Data'', ''EntryIndex: 1'', ''Entry-1: a|A'', [], ''# PAGE'', ''PageID: 3'',
     ''LSN: 0'', ''Type: Data'', ''EntryIndex: 1'', ''Entry-1: b|B'']"

definition file_ab :: string where
  "file_ab = unlines [''# DATABASE HEADER'', ''PAGESIZE=4096'', ''ENCODING=UTF-8'', ''VERSION=1.0'',
     ''PAGES=0'', [], [], ''# PAGE'', ''PageID: 1'', ''LSN: 0'', ''Type: Index'',
     ''IsLeaf: true'', ''Keys: a,b'', ''Pointers: 2:1,3:1'', ''# PAGE'', ''PageID: 2'',
     ''LSN: 0'', ''Type: Data'', ''EntryIndex: 1'', ''Entry-1: a|A'', [], ''# PAGE'',
     ''PageID: 3'', ''LSN: 0'', ''Type: Data'', ''EntryIndex: 1'', ''Entry-1: b|B'']"

definition db_ab :: Database where
  "db_ab =
     \<lparr>Index_of = \<lparr>RootPageID = 1,
                  FileHandler = \<lparr>FileContent = file_ab, PageSize = 4096, PageCount = 3, DeallocatedPages = []\<rparr>\<rparr>\<rparr>"

definition file_mid_2 :: string where
  "file_mid_2 = unlines [''# DATABASE HEADER'', ''PAGESIZE=4096'', ''ENCODING=UTF-8'', ''VERSION=1.0'',
     ''PAGES=0'', [], [], ''# PAGE'', ''PageID: 1'', ''LSN: 0'', ''Type: Index'',
     ''IsLeaf: true'', ''Keys: a,b'', ''Pointers: 2:1,3:1'', ''# PAGE'', ''PageID: 2'',
     ''LSN: 0'', ''Type: Data'', ''EntryIndex: 1'', ''Entry-1: a|A'', [], ''# PAGE'',
     ''PageID: 3'', ''LSN: 0'', ''Type: Data'', ''EntryIndex: 1'', ''Entry-1: b|B'', [],
     ''# PAGE'', ''PageID: 4'', ''LSN: 0'', ''Type: Data'', ''EntryIndex: 1'', ''Entry-1: c|C'']"

definition file_abc :: string where
  "file_abc = unlines [''# DATABASE HEADER'', ''PAGESIZE=4096'', ''ENCODING=UTF-8'', ''VERSION=1.0'',
     ''PAGES=0'', [], [], ''# PAGE'', ''PageID: 1'', ''LSN: 0'', ''Type: Index'',
     ''IsLeaf: true'', ''Keys: a,b,c'', ''Pointers: 2:1,3:1,4:1'', ''# PAGE'', ''PageID: 2'',
     ''LSN: 0'', ''Type: Data'', ''EntryIndex: 1'', ''Entry-1: a|A'', [], ''# PAGE'',
     ''PageID: 3'', ''LSN: 0'', ''Type: Data'', ''EntryIndex: 1'', ''Entry-1: b|B'', [],
     ''# PAGE'', ''PageID: 4'', ''LSN: 0'', ''Type: Data'', ''EntryIndex: 1'', ''Entry-1: c|C'']"

definition db_abc :: Database where
  "db_abc =
     \<lparr>Index_of = \<lparr>RootPageID = 1,
                  FileHandler = \<lparr>FileContent = file_abc, PageSize = 4096, PageCount = 4, DeallocatedPages = []\<rparr>\<rparr>\<rparr>"

definition file_mid_3 :: string where
  "file_mid_3 = unlines [''# DATABASE HEADER'', ''PAGESIZE=4096'', ''ENCODING=UTF-8'', ''VERSION=1.0'',
     ''PAGES=0'', [], [], ''# PAGE'', ''PageID: 1'', ''LSN: 0'', ''Type: Index'',
     ''IsLeaf: true'', ''Keys: a,b,c'', ''Pointers: 2:1,3:1,4:1'', ''# PAGE'', ''PageID: 2'',
     ''LSN: 0'', ''Type: Data'', ''EntryIndex: 1'', ''Entry-1: a|A'', [], ''# PAGE'',
     ''PageID: 3'', ''LSN: 0'', ''Type: Data'', ''EntryIndex: 1'', ''Entry-1: b|B'', [],
     ''# PAGE'', ''PageID: 4'', ''LSN: 0'', ''Type: Data'', ''EntryIndex: 1'',
     ''Entry-1: c|C'', [], ''# PAGE'', ''PageID: 5'', ''LSN: 0'', ''Type: Data'',
     ''EntryIndex: 1'', ''Entry-1: user:1|X'']"

definition db_abc_x :: Database where
  "db_abc_x =
     \<lparr>Index_of = \<lparr>RootPageID = 1,
                  FileHandler = \<lparr>FileContent = file_mid_3, PageSize = 4096, PageCount = 5, DeallocatedPages = []\<rparr>\<rparr>\<rparr>"

definition file_mid_4 :: string where
  "file_mid_4 = unlines [''# DATABASE HEADER'', ''PAGESIZE=4096'', ''ENCODING=UTF-8'', ''VERSION=1.0'',
     ''PAGES=0'', [], [], ''# PAGE'', ''PageID: 1'', ''LSN: 0'', ''Type: Index'',
     ''IsLeaf: true'', ''Keys: a,b,c'', ''Pointers: 2:1,3:1,4:1'', ''# PAGE'', ''PageID: 2'',
     ''LSN: 0'', ''Type: Data'', ''EntryIndex: 1'', ''Entry-1: a|A'', [], ''# PAGE'',
     ''PageID: 3'', ''LSN: 0'', ''Type: Data'', ''EntryIndex: 1'', ''Entry-1: b|B'', [],
     ''# PAGE'', ''PageID: 4'', ''LSN: 0'', ''Type: Data'', ''EntryIndex: 1'',
     ''Entry-1: c|C'', [], ''# PAGE'', ''PageID: 5'', ''LSN: 0'', ''Type: Data'',
     ''EntryIndex: 1'', ''Entry-1: user:1|X'', [], ''# PAGE'', ''PageID: 6'', ''LSN: 0'',
     ''Type: Data'', ''EntryIndex: 1'', ''Entry-1: user:1|Y'']"

definition db_abc_xy :: Database where
  "db_abc_xy =
     \<lparr>Index_of = \<lparr>RootPageID = 1,
                  FileHandler = \<lparr>FileContent = file_mid_4, PageSize = 4096, PageCount = 6, DeallocatedPages = []\<rparr>\<rparr>\<rparr>"

text \<open>A page with a value that ends with a space.\<close>

definition padded_page :: Page where
  "padded_page = \<lparr>Header = \<lparr>PageLSN = 0, PageID = 1, PageType = ''Data''\<rparr>,
                   Data = [''note'' \<mapsto> ''x '']\<rparr>"

text \<open>The file of a new store after that page has been written.\<close>

definition padded_file :: string where
  "padded_file = unlines [''# DATABASE HEADER'', ''PAGESIZE=4096'', ''ENCODING=UTF-8'',
     ''VERSION=1.0'', ''PAGES=0'', [], [], ''# PAGE'', ''PageID: 1'', ''LSN: 0'', ''Type: Data'',
     ''note: x '']"

section \<open>Lemmas\<close>

lemma split_lines_nl:
  "CHR 0x0A \<notin> set l \<Longrightarrow> split_lines (l @ CHR 0x0A # rest) = l # split_lines rest"
  by (induction l) auto

lemma unlines_Nil [simp]: "unlines [] = []"
  by (simp add: unlines_def)

lemma unlines_Cons [simp]: "unlines (l # ls) = l @ CHR 0x0A # unlines ls"
  by (simp add: unlines_def NL_def)

lemma unlines_append [simp]: "unlines (xs @ ys) = unlines xs @ unlines ys"
  by (simp add: unlines_def)

lemma split_lines_unlines:
  "\<forall>l\<in>set ls. CHR 0x0A \<notin> set l \<Longrightarrow> split_lines (unlines ls @ rest) = ls @ split_lines rest"
  by (induction ls) (simp_all add: split_lines_nl)

lemma Scanner_unlines:
  assumes "\<forall>l\<in>set ls. scannable l"
  shows "Scanner (unlines ls) = map Line ls"
proof -
  from assms have "\<forall>l\<in>set ls. CHR 0x0A \<notin> set l" by (simp add: scannable_def)
  then have "split_lines (unlines ls @ []) = ls @ split_lines []" by (rule split_lines_unlines)
  then have "split_lines (unlines ls) = ls" by simp
  with assms show ?thesis by (auto simp: Scanner_def scannable_def not_le)
qed

lemma Index_absent_char:
  assumes "c \<in> set sep" "c \<notin> set s"
  shows "Index s sep = None"
  using assms
proof (induction s)
  case Nil
  then show ?case by auto
next
  case (Cons a s)
  have "\<not> prefix sep (a # s)"
  proof
    assume "prefix sep (a # s)"
    then have "set sep \<subseteq> set (a # s)" by (rule set_mono_prefix)
    with Cons.prems show False by auto
  qed
  with Cons show ?case by simp
qed

lemma Index_colon_space:
  "CHR '' '' \<notin> set k \<Longrightarrow> Index (k @ CHR '':'' # CHR '' '' # v) '': '' = Some (length k)"
proof (induction k)
  case Nil
  then show ?case by simp
next
  case (Cons a k)
  then have "\<not> prefix '': '' (a # k @ CHR '':'' # CHR '' '' # v)" by (cases k) auto
  with Cons show ?case by simp
qed

lemma SplitN_2: "SplitN s sep 2 = (case Index s sep of None \<Rightarrow> [s] | Some i \<Rightarrow> [take i s, drop (i + length sep) s])"
  by (simp add: numeral_2_eq_2 split: option.split)

lemma SplitN_colon_space:
  "CHR '' '' \<notin> set k \<Longrightarrow> SplitN (k @ CHR '':'' # CHR '' '' # v) '': '' 2 = [k, v]"
  by (simp add: SplitN_2 Index_colon_space)

declare FormatUint.simps [simp del] Split.simps [simp del] strip_leading.simps [simp del]
  SkipSpace.simps [simp del] Search.simps [simp del]

lemma leading_space_Nil [simp]: "leading_space ws [] = None"
  by (induction ws) (auto simp: leading_space_def)

lemma space_heads: "\<forall>w\<in>set space_encodings. \<not> graphic (hd w) \<and> \<not> graphic (last w)"
  by (simp add: space_encodings_def graphic_def)

lemma leading_space_graphic:
  assumes "graphic c"
  shows "leading_space space_encodings (c # cs) = None"
    and "leading_space (map rev space_encodings) (c # cs) = None"
proof -
  have "\<not> (w \<noteq> [] \<and> prefix w (c # cs))" if "w \<in> set space_encodings" for w
  proof
    assume "w \<noteq> [] \<and> prefix w (c # cs)"
    then have "hd w = c" by (cases w) auto
    with space_heads that assms show False by auto
  qed
  then show "leading_space space_encodings (c # cs) = None"
    by (auto simp: leading_space_def find_None_iff)
  have "\<not> (rev w \<noteq> [] \<and> prefix (rev w) (c # cs))" if "w \<in> set space_encodings" for w
  proof
    assume "rev w \<noteq> [] \<and> prefix (rev w) (c # cs)"
    then have "hd (rev w) = c" by (cases "rev w") auto
    then have "last w = c" by (simp add: hd_rev)
    with space_heads that assms show False by auto
  qed
  then show "leading_space (map rev space_encodings) (c # cs) = None"
    by (auto simp: leading_space_def find_None_iff)
qed

lemma strip_leading_None: "leading_space ws s = None \<Longrightarrow> strip_leading ws s = s"
  by (simp add: strip_leading.simps)

lemma TrimSpace_Nil [simp]: "TrimSpace [] = []"
  by (simp add: TrimSpace_def strip_leading_None)

lemma TrimSpace_graphic:
  assumes "s \<noteq> []" "graphic (hd s)" "graphic (last s)"
  shows "TrimSpace s = s"
proof -
  from assms obtain c cs where s: "s = c # cs" and c: "graphic c" by (cases s) auto
  from assms obtain d ds where r: "rev s = d # ds" and d: "graphic d"
    by (cases "rev s") (auto simp: last_rev [symmetric] simp del: last_rev)
  have "strip_leading space_encodings s = s"
    unfolding s using c by (intro strip_leading_None leading_space_graphic)
  moreover have "strip_leading (map rev space_encodings) (rev s) = rev s"
    unfolding r using d by (intro strip_leading_None leading_space_graphic)
  ultimately show ?thesis by (simp add: TrimSpace_def)
qed

lemma FormatUint_nonempty [simp]: "FormatUint n \<noteq> []"
  by (subst FormatUint.simps) simp

lemma is_digit_char_of: "(d::nat) < 10 \<Longrightarrow> is_digit (char_of (48 + d))"
  by (simp add: is_digit_def)

lemma digit_val_char_of: "(d::nat) < 10 \<Longrightarrow> digit_val (char_of (48 + d)) = d"
  by (simp add: digit_val_def)

lemma FormatUint_digits: "c \<in> set (FormatUint n) \<Longrightarrow> is_digit c"
proof (induction n arbitrary: c rule: FormatUint.induct)
  case (1 n)
  show ?case
  proof (cases "n < 10")
    case True
    with "1.prems" show ?thesis by (subst (asm) FormatUint.simps) (simp add: is_digit_char_of)
  next
    case False
    with "1.prems" have "c \<in> set (FormatUint (n div 10)) \<or> c = char_of (48 + n mod 10)"
      by (subst (asm) FormatUint.simps) auto
    with False "1.IH" show ?thesis by (auto simp: is_digit_char_of)
  qed
qed

lemma dec_val_snoc: "dec_val a (xs @ [d]) = dec_val a xs * 10 + digit_val d"
  by (induction xs arbitrary: a) simp_all

lemma dec_val_FormatUint: "dec_val 0 (FormatUint n) = n"
proof (induction n rule: FormatUint.induct)
  case (1 n)
  show ?case
  proof (cases "n < 10")
    case True
    then show ?thesis by (subst FormatUint.simps) (simp add: digit_val_char_of)
  next
    case False
    with "1.IH" show ?thesis
      by (subst FormatUint.simps) (simp add: dec_val_snoc digit_val_char_of)
  qed
qed

lemma length_FormatUint: "n < 10 ^ k \<Longrightarrow> 0 < k \<Longrightarrow> length (FormatUint n) \<le> k"
proof (induction k arbitrary: n)
  case 0
  then show ?case by simp
next
  case (Suc k)
  show ?case
  proof (cases "n < 10")
    case True
    then show ?thesis by (subst FormatUint.simps) simp
  next
    case False
    from Suc.prems have "n < 10 ^ k * 10" by simp
    then have "n div 10 < 10 ^ k" by (rule less_mult_imp_div_less)
    moreover from False Suc.prems have "0 < k" by (cases k) simp_all
    ultimately have "length (FormatUint (n div 10)) \<le> k" by (rule Suc.IH)
    with False show ?thesis by (subst FormatUint.simps) simp
  qed
qed

lemma is_digit_graphic: "is_digit c \<Longrightarrow> graphic c"
  by (simp add: is_digit_def graphic_def)

lemma is_digit_not_special:
  assumes "is_digit c"
  shows "c \<noteq> CHR '':''" "c \<noteq> CHR '',''" "c \<noteq> CHR '' ''" "c \<noteq> CHR 0x0A"
  using assms by (auto simp: is_digit_def)

lemma dec_val_mono: "a \<le> dec_val a ds"
proof (induction ds arbitrary: a)
  case Nil
  then show ?case by simp
next
  case (Cons d ds)
  have "a \<le> a * 10 + digit_val d" by simp
  also have "\<dots> \<le> dec_val (a * 10 + digit_val d) ds" by (rule Cons.IH)
  finally show ?case by simp
qed

lemma ParseUint_loop_digits:
  assumes "\<forall>c\<in>set ds. is_digit c" "dec_val a ds \<le> maxVal" "maxVal < 2 ^ 32"
  shows "ParseUint_loop maxVal a ds = dec_val a ds"
  using assms
proof (induction ds arbitrary: a)
  case Nil
  then show ?case by simp
next
  case (Cons d ds)
  let ?b = "a * 10 + digit_val d"
  have "a \<le> ?b" by simp
  moreover have "?b \<le> dec_val ?b ds" by (rule dec_val_mono)
  ultimately have "a \<le> maxVal" "?b \<le> maxVal" using Cons.prems(2) by simp_all
  with Cons show ?case by simp
qed

lemma ParseUint_FormatUint: "n < 2 ^ 32 \<Longrightarrow> ParseUint (FormatUint n) 32 = n"
  using ParseUint_loop_digits [of "FormatUint n" 0 "2 ^ 32 - 1"]
  by (simp add: ParseUint_def dec_val_FormatUint FormatUint_digits)

lemma SkipSpace_graphic: "graphic c \<Longrightarrow> SkipSpace (c # cs) = Some (c # cs)"
  by (subst SkipSpace.simps) (auto simp: leading_space_graphic graphic_def)

lemma Sscanf_uint_FormatUint: "n < 2 ^ 64 \<Longrightarrow> Sscanf_uint (FormatUint n) x = n"
proof -
  assume n: "n < 2 ^ 64"
  obtain c cs where f: "FormatUint n = c # cs" by (cases "FormatUint n") simp_all
  then have "is_digit c" using FormatUint_digits [of c n] by simp
  then have s: "SkipSpace (FormatUint n) = Some (FormatUint n)"
    unfolding f by (intro SkipSpace_graphic is_digit_graphic)
  have t: "takeWhile is_digit (FormatUint n) = FormatUint n"
    by (simp add: FormatUint_digits)
  from n show ?thesis by (simp add: Sscanf_uint_def s t dec_val_FormatUint)
qed

lemma Index_char:
  "c \<notin> set a \<Longrightarrow> Index (a @ c # b) [c] = Some (length a)"
  by (induction a) auto

lemma Split_no_sep: "c \<notin> set s \<Longrightarrow> Split s [c] = [s]"
  by (subst Split.simps) (simp add: Index_absent_char [of c])

lemma Split_cons: "c \<notin> set a \<Longrightarrow> Split (a @ c # b) [c] = a # Split b [c]"
  by (subst Split.simps) (simp add: Index_char)

lemma Split_Join:
  "ks \<noteq> [] \<Longrightarrow> \<forall>k\<in>set ks. c \<notin> set k \<Longrightarrow> Split (Join ks [c]) [c] = ks"
proof (induction ks "[c]" rule: Join.induct)
  case 1
  then show ?case by simp
next
  case (2 x)
  then show ?case by (simp add: Split_no_sep)
next
  case (3 x y ys)
  then show ?case by (simp add: Split_cons)
qed

lemma Join_eq_Nil: "\<forall>k\<in>set ks. k \<noteq> [] \<Longrightarrow> Join ks sep = [] \<longleftrightarrow> ks = []"
  by (induction ks sep rule: Join.induct) auto

lemma set_Join: "set (Join ks sep) \<subseteq> \<Union> (set ` set ks) \<union> set sep"
  by (induction ks sep rule: Join.induct) auto

lemma length_Join:
  "\<forall>k\<in>set ks. length k \<le> n \<Longrightarrow> length (Join ks sep) \<le> length ks * (n + length sep)"
  by (induction ks sep rule: Join.induct) auto

lemma first_index_None: "first_index ks key = None \<longleftrightarrow> key \<notin> set ks"
  by (induction ks) auto

lemma first_index_Some:
  "first_index ks key = Some i \<Longrightarrow> i < length ks \<and> ks ! i = key \<and> key \<notin> set (take i ks)"
proof (induction ks arbitrary: i)
  case Nil
  then show ?case by simp
next
  case (Cons k ks)
  show ?case
  proof (cases "k = key")
    case True
    with Cons.prems show ?thesis by simp
  next
    case False
    with Cons.prems obtain j where "first_index ks key = Some j" "i = Suc j" by auto
    with Cons.IH [of j] False show ?thesis by auto
  qed
qed

lemma not_section_prefix:
  "CHR '' '' \<notin> set k \<Longrightarrow> \<not> prefix ''# PAGE'' (k @ CHR '':'' # CHR '' '' # v)"
proof (cases k)
  case Nil
  then show ?thesis by simp
next
  case (Cons a k')
  assume "CHR '' '' \<notin> set k"
  with Cons show ?thesis by (cases k') auto
qed

lemma ReadPage_line_field:
  assumes "CHR '' '' \<notin> set k"
  shows "ReadPage_line marker (k @ CHR '':'' # CHR '' '' # v) (True, True, pg)
           = Some (True, True, ReadPage_field (TrimSpace k) (TrimSpace v) pg)"
  using assms
  by (simp add: ReadPage_line_def HasPrefix_def PageSection_def not_section_prefix
        SplitN_colon_space)

lemma ReadPage_line_skip:
  assumes "\<not> Contains l marker"
  shows "ReadPage_line marker l (False, found, pg) = Some (False, found, pg)"
  using assms by (simp add: ReadPage_line_def)

lemma ReadPage_loop_skip:
  assumes "\<forall>l\<in>set ls. \<not> Contains l marker"
  shows "ReadPage_loop marker (map Line ls @ rest) (False, found, pg)
           = ReadPage_loop marker rest (False, found, pg)"
  using assms by (induction ls) (simp_all add: ReadPage_line_skip)

lemma ReadPage_loop_payload:
  assumes "\<forall>k\<in>set order. field_key k \<and> field_value (the (m k))"
  shows "ReadPage_loop marker (map Line (payload_lines m order) @ rest) (True, True, pg)
           = ReadPage_loop marker rest (True, True, pg\<lparr>Data := store_all m (Data pg) order\<rparr>)"
  using assms
proof (induction order arbitrary: pg)
  case Nil
  then show ?case by (simp add: payload_lines_def)
next
  case (Cons k order)
  from Cons.prems have k: "CHR '' '' \<notin> set k" "TrimSpace k = k" "k \<noteq> ''LSN''" "k \<noteq> ''Type''"
      "k \<noteq> ''PageID''" and v: "TrimSpace (the (m k)) = the (m k)"
    by (simp_all add: field_key_def field_value_def)
  have step: "ReadPage_line marker (k @ CHR '':'' # CHR '' '' # the (m k)) (True, True, pg)
      = Some (True, True, pg\<lparr>Data := (Data pg)(k \<mapsto> the (m k))\<rparr>)"
    using k v by (simp add: ReadPage_line_field ReadPage_field_def)
  from Cons.prems have rest: "\<forall>k\<in>set order. field_key k \<and> field_value (the (m k))" by simp
  let ?pg = "pg\<lparr>Data := (Data pg)(k \<mapsto> the (m k))\<rparr>"
  have "ReadPage_loop marker (map Line (payload_lines m (k # order)) @ rest) (True, True, pg)
      = ReadPage_loop marker (map Line (payload_lines m order) @ rest) (True, True, ?pg)"
    using step by (simp add: payload_lines_def)
  also have "\<dots> = ReadPage_loop marker rest (True, True, ?pg\<lparr>Data := store_all m (Data ?pg) order\<rparr>)"
    using rest by (rule Cons.IH)
  also have "?pg\<lparr>Data := store_all m (Data ?pg) order\<rparr> = pg\<lparr>Data := store_all m (Data pg) (k # order)\<rparr>"
    by simp
  finally show ?case .
qed

lemma store_all_lookup:
  "store_all m d order x = (if x \<in> set order then Some (the (m x)) else d x)"
  by (induction order arbitrary: d) auto

lemma store_all_iteration:
  assumes "iteration_order order m"
  shows "store_all m Map.empty order = m"
proof
  fix x
  from assms have "set order = dom m" by (simp add: iteration_order_def)
  then show "store_all m Map.empty order x = m x"
    by (cases "m x") (auto simp: store_all_lookup)
qed

lemma TrimSpace_literals [simp]:
  "TrimSpace ''LSN'' = ''LSN''" "TrimSpace ''Type'' = ''Type''" "TrimSpace ''PageID'' = ''PageID''"
  by (rule TrimSpace_graphic; simp add: graphic_def)+

lemma TrimSpace_FormatUint [simp]: "TrimSpace (FormatUint n) = FormatUint n"
proof (rule TrimSpace_graphic)
  show "FormatUint n \<noteq> []" by simp
  show "graphic (hd (FormatUint n))"
    by (rule is_digit_graphic, rule FormatUint_digits [of _ n], simp)
  show "graphic (last (FormatUint n))"
    by (rule is_digit_graphic, rule FormatUint_digits [of _ n], simp)
qed

lemma Index_self_prefix: "sep \<noteq> [] \<Longrightarrow> Index (sep @ s) sep = Some 0"
  by (cases sep) simp_all

lemma ReadPage_line_marker:
  "ReadPage_line (PageIDMarker pid) (PageIDMarker pid) (False, found, pg) = Some (True, True, pg)"
proof -
  have c: "Contains (PageIDMarker pid) (PageIDMarker pid)"
    using Index_self_prefix [of "PageIDMarker pid" "[]"]
    by (simp add: Contains_def PageIDMarker_def)
  have s: "SplitN (PageIDMarker pid) '': '' 2 = [''PageID'', FormatUint pid]"
    using SplitN_colon_space [of "''PageID''" "FormatUint pid"] by (simp add: PageIDMarker_def)
  have p: "\<not> HasPrefix (PageIDMarker pid) PageSection"
    by (simp add: HasPrefix_def PageIDMarker_def PageSection_def)
  have n: "PageIDMarker pid \<noteq> []" by (simp add: PageIDMarker_def)
  show ?thesis
    by (simp add: ReadPage_line_def c s p n ReadPage_field_def)
qed

lemma ReadPage_loop_stop:
  assumes "rest = [] \<or> (\<exists>l ts. rest = Line l # ts \<and> HasPrefix l PageSection)"
  shows "ReadPage_loop marker rest (True, True, pg) = (True, pg, False)"
  using assms by (auto simp: ReadPage_line_def)

lemma ReadPage_loop_section:
  assumes clean: "clean_page pg" and order: "iteration_order order (Data pg)"
    and pre: "\<forall>l\<in>set ls. \<not> Contains l (PageIDMarker (PageID (Header pg)))"
    and post: "rest = [] \<or> (\<exists>l ts. rest = Line l # ts \<and> HasPrefix l PageSection)"
  shows "ReadPage_loop (PageIDMarker (PageID (Header pg)))
           (map Line ls @ map Line (page_lines pg order) @ rest)
           (False, False, blank_page (PageID (Header pg))) = (True, pg, False)"
proof -
  let ?m = "PageIDMarker (PageID (Header pg))"
  let ?b = "blank_page (PageID (Header pg))"
  let ?h = "?b\<lparr>Header := \<lparr>PageLSN = PageLSN (Header pg), PageID = PageID (Header pg),
                PageType = PageType (Header pg)\<rparr>\<rparr>"
  from clean have lsn: "PageLSN (Header pg) < 2 ^ 64"
    and ty: "TrimSpace (PageType (Header pg)) = PageType (Header pg)"
    by (simp_all add: clean_page_def field_value_def)
  from clean order have fields:
    "\<forall>k\<in>set order. field_key k \<and> field_value (the (Data pg k))"
    by (simp add: clean_page_def iteration_order_def)
  have l1: "ReadPage_line ?m (''LSN: '' @ FormatUint (PageLSN (Header pg))) (True, True, ?b)
      = Some (True, True, ?b\<lparr>Header := (Header ?b)\<lparr>PageLSN := PageLSN (Header pg)\<rparr>\<rparr>)"
    using ReadPage_line_field [of "''LSN''" ?m "FormatUint (PageLSN (Header pg))" ?b] lsn
    by (simp add: ReadPage_field_def Sscanf_uint_FormatUint blank_page_def)
  have l2: "ReadPage_line ?m (''Type: '' @ PageType (Header pg))
        (True, True, ?b\<lparr>Header := (Header ?b)\<lparr>PageLSN := PageLSN (Header pg)\<rparr>\<rparr>)
      = Some (True, True, ?h)"
    using ReadPage_line_field [of "''Type''" ?m "PageType (Header pg)"
        "?b\<lparr>Header := (Header ?b)\<lparr>PageLSN := PageLSN (Header pg)\<rparr>\<rparr>"] ty
    by (simp add: ReadPage_field_def blank_page_def)
  have "ReadPage_loop ?m (map Line ls @ map Line (page_lines pg order) @ rest) (False, False, ?b)
      = ReadPage_loop ?m (map Line (page_lines pg order) @ rest) (False, False, ?b)"
    using pre by (rule ReadPage_loop_skip)
  also have "\<dots> = ReadPage_loop ?m (map Line (payload_lines (Data pg) order) @ rest) (True, True, ?h)"
    using l1 l2 by (simp add: page_lines_def ReadPage_line_marker)
  also have "\<dots> = ReadPage_loop ?m rest (True, True, ?h\<lparr>Data := store_all (Data pg) (Data ?h) order\<rparr>)"
    using fields by (rule ReadPage_loop_payload)
  also have "?h\<lparr>Data := store_all (Data pg) (Data ?h) order\<rparr> = pg"
    using store_all_iteration [OF order] by (simp add: blank_page_def)
  also have "ReadPage_loop ?m rest (True, True, pg) = (True, pg, False)"
    using post by (rule ReadPage_loop_stop)
  finally show ?thesis .
qed

lemma FormatUint_small [simp]:
  "FormatUint 0 = ''0''" "FormatUint 1 = ''1''" "FormatUint (Suc 0) = ''1''"
  by (simp_all add: FormatUint.simps char_of_def bit_Suc_0_iff)

lemma payload_line_unlines:
  assumes "set order \<subseteq> dom m"
  shows "concat (map (payload_line m) order) = unlines (payload_lines m order)"
  using assms
proof (induction order)
  case Nil
  then show ?case by (simp add: payload_lines_def)
next
  case (Cons k order)
  then obtain v where "m k = Some v" by auto
  with Cons show ?case by (simp add: payload_lines_def payload_line_def NL_def)
qed

lemma NewPageContent_unlines:
  assumes "set order \<subseteq> dom (Data pg)"
  shows "NewPageContent pg order = unlines (PageSection # page_lines pg order)"
  using payload_line_unlines [OF assms]
  by (simp add: NewPageContent_def page_lines_def PageIDMarker_def NL_def)

lemma InitialContent_unlines: "InitialContent @ NL = unlines header_lines"
  by (simp add: InitialContent_def header_lines_def NL_def HeaderSection_def)

text \<open>An occurrence of the marker of any page needs a capital \<open>P\<close> followed by \<open>a\<close>.\<close>

lemma header_no_marker: "\<forall>l\<in>set (header_lines @ [PageSection]). \<not> Contains l (PageIDMarker pid)"
  by (simp add: header_lines_def HeaderSection_def PageSection_def Contains_def PageIDMarker_def)

lemma header_scannable: "\<forall>l\<in>set (header_lines @ [PageSection]). scannable l"
  by (simp add: header_lines_def HeaderSection_def PageSection_def scannable_def dropCR_def
      MaxScanTokenSize_def)

lemma graphic_text_simps [simp]:
  "graphic_text []" "graphic_text (c # cs) \<longleftrightarrow> graphic c \<and> graphic_text cs"
  "graphic_text (a @ b) \<longleftrightarrow> graphic_text a \<and> graphic_text b"
  by (auto simp: graphic_text_def)

lemma graphic_not_space:
  assumes "graphic_text s"
  shows "CHR '' '' \<notin> set s" "CHR 0x0A \<notin> set s" "CHR 0x0D \<notin> set s"
  using assms by (auto simp: graphic_text_def graphic_def)

lemma TrimSpace_graphic_text: "graphic_text s \<Longrightarrow> TrimSpace s = s"
proof (cases "s = []")
  case True
  then show ?thesis by simp
next
  case False
  assume "graphic_text s"
  with False have "graphic (hd s)" "graphic (last s)" by (simp_all add: graphic_text_def)
  with False show ?thesis by (rule TrimSpace_graphic)
qed

lemma field_value_graphic: "graphic_text s \<Longrightarrow> field_value s"
  by (simp add: field_value_def TrimSpace_graphic_text graphic_not_space)

lemma field_key_graphic:
  "graphic_text k \<Longrightarrow> k \<noteq> ''LSN'' \<Longrightarrow> k \<noteq> ''Type'' \<Longrightarrow> k \<noteq> ''PageID'' \<Longrightarrow> field_key k"
  by (simp add: field_key_def TrimSpace_graphic_text graphic_not_space)

lemma Index_graphic_space [simp]:
  "graphic_text v \<Longrightarrow> CHR '' '' \<in> set sep \<Longrightarrow> Index v sep = None"
  using Index_absent_char [of "CHR '' ''" sep v] by (simp add: graphic_not_space)

lemma scannable_field:
  assumes "CHR 0x0A \<notin> set k" "graphic_text v" "length k + length v + 2 < MaxScanTokenSize"
  shows "scannable (k @ '': '' @ v)"
proof -
  have "last (k @ '': '' @ v) \<noteq> CHR 0x0D"
  proof (cases "v = []")
    case True
    then show ?thesis by simp
  next
    case False
    then have "last v \<in> set v" by simp
    with assms(2) have "graphic (last v)" by (simp add: graphic_text_def)
    with False show ?thesis by (auto simp: graphic_def)
  qed
  with assms show ?thesis by (simp add: scannable_def dropCR_def graphic_not_space)
qed

lemma dom_root_page: "dom (Data (root_page K Q)) = {''IsLeaf'', ''Keys'', ''Pointers''}"
  by (auto simp: root_page_def)

lemma clean_root_page:
  assumes "graphic_text K" "graphic_text Q"
  shows "clean_page (root_page K Q)"
  unfolding clean_page_def dom_root_page
  using assms by (auto simp: root_page_def graphic_def intro!: field_value_graphic field_key_graphic)

lemma root_page_lines_scannable:
  assumes "graphic_text K" "graphic_text Q" "length K < 65530" "length Q < 65526"
    and "set order = dom (Data (root_page K Q))"
  shows "\<forall>l\<in>set (page_lines (root_page K Q) order). scannable l"
proof -
  have hdr: "scannable (PageIDMarker 1)" "scannable ''LSN: 0''" "scannable ''Type: Index''"
    by (simp_all add: scannable_def PageIDMarker_def dropCR_def MaxScanTokenSize_def)
  have "scannable (k @ '': '' @ the (Data (root_page K Q) k))" if "k \<in> set order" for k
  proof (rule scannable_field)
    from that assms(5) have k: "k = ''IsLeaf'' \<or> k = ''Keys'' \<or> k = ''Pointers''"
      by (simp add: dom_root_page)
    then show "CHR 0x0A \<notin> set k" by auto
    from k assms show "graphic_text (the (Data (root_page K Q) k))"
      by (auto simp: root_page_def graphic_def)
    from k assms show "length k + length (the (Data (root_page K Q) k)) + 2 < MaxScanTokenSize"
      by (auto simp: root_page_def MaxScanTokenSize_def)
  qed
  with hdr show ?thesis by (auto simp: page_lines_def payload_lines_def root_page_def)
qed

lemma ReadPage_root_file:
  assumes K: "graphic_text K" "length K < 65530" and Q: "graphic_text Q" "length Q < 65526"
    and order: "iteration_order order (Data (root_page K Q))"
    and content: "FileContent fh = root_file K Q order" and count: "1 \<le> PageCount fh"
  shows "ReadPage fh 1 = Inr (root_page K Q)"
proof -
  let ?pg = "root_page K Q"
  define L where "L = (header_lines @ [PageSection]) @ page_lines ?pg order"
  from order have dom: "set order = dom (Data ?pg)" by (simp add: iteration_order_def)
  then have "FileContent fh = unlines L"
    using NewPageContent_unlines [of order ?pg] InitialContent_unlines
    by (simp add: content root_file_def L_def del: unlines_Cons)
  moreover have "\<forall>l\<in>set L. scannable l"
    unfolding L_def
    using header_scannable root_page_lines_scannable [OF K(1) Q(1) K(2) Q(2) dom]
    by (simp only: set_append ball_Un)
  then have "Scanner (unlines L) = map Line L" by (rule Scanner_unlines)
  ultimately have scan: "Scanner (FileContent fh)
      = map Line (header_lines @ [PageSection]) @ map Line (page_lines ?pg order) @ []"
    by (simp add: L_def)
  have id: "PageID (Header ?pg) = 1" by (simp add: root_page_def)
  have "ReadPage_loop (PageIDMarker (PageID (Header ?pg)))
      (map Line (header_lines @ [PageSection]) @ map Line (page_lines ?pg order) @ [])
      (False, False, blank_page (PageID (Header ?pg))) = (True, ?pg, False)"
    using clean_root_page [OF K(1) Q(1)] order header_no_marker
    by (rule ReadPage_loop_section) simp
  with count show ?thesis
    by (simp add: ReadPage_def scan id blank_page_def)
qed

lemma prefix_before_newline:
  assumes "prefix sep (u @ c # rest)" "c \<notin> set sep"
  shows "prefix sep u"
proof -
  from assms(1) have "prefix sep u \<or> (\<exists>us. sep = u @ us \<and> prefix us (c # rest))"
    by (simp only: prefix_append)
  then show ?thesis
  proof
    assume "prefix sep u" then show ?thesis .
  next
    assume "\<exists>us. sep = u @ us \<and> prefix us (c # rest)"
    then obtain us where us: "sep = u @ us" "prefix us (c # rest)" by blast
    show ?thesis
    proof (cases us)
      case Nil
      with us show ?thesis by simp
    next
      case (Cons a us')
      with us(2) have "a = c" by simp
      with Cons us(1) assms(2) show ?thesis by simp
    qed
  qed
qed

lemma Index_line_then:
  assumes "Index l sep = None" "c \<notin> set sep" "sep \<noteq> []"
  shows "Index (l @ c # rest) sep = map_option (\<lambda>i. i + Suc (length l)) (Index rest sep)"
  using assms(1)
proof (induction l)
  case Nil
  from assms(2,3) have "\<not> prefix sep (c # rest)" by (cases sep) auto
  then show ?case by (cases "Index rest sep") simp_all
next
  case (Cons a l)
  from Cons.prems have np: "\<not> prefix sep (a # l)" and tl: "Index l sep = None"
    by (auto split: if_splits)
  have "\<not> prefix sep ((a # l) @ c # rest)"
  proof
    assume "prefix sep ((a # l) @ c # rest)"
    then have "prefix sep (a # l)" using assms(2) by (rule prefix_before_newline)
    with np show False ..
  qed
  then have "Index ((a # l) @ c # rest) sep = map_option Suc (Index (l @ c # rest) sep)"
    by simp
  also have "\<dots> = map_option (\<lambda>i. i + Suc (length (a # l))) (Index rest sep)"
    by (cases "Index rest sep") (simp_all add: Cons.IH [OF tl])
  finally show ?case .
qed

lemma Index_unlines_None:
  assumes "\<forall>l\<in>set ls. Index l sep = None" "CHR 0x0A \<notin> set sep" "sep \<noteq> []"
  shows "Index (unlines ls) sep = None"
  using assms(1)
proof (induction ls)
  case Nil
  with assms(3) show ?case by simp
next
  case (Cons l ls)
  then have "Index l sep = None" "Index (unlines ls) sep = None" by simp_all
  with Index_line_then [of l sep "CHR 0x0A" "unlines ls"] assms(2,3)
  show ?case by simp
qed

lemma root_payload_no_section:
  assumes "graphic_text K" "graphic_text Q" "set order = dom (Data (root_page K Q))"
  shows "Index (unlines (payload_lines (Data (root_page K Q)) order)) PageSection = None"
proof (rule Index_unlines_None)
  have "\<forall>k\<in>set order. Index (k @ '': '' @ the (Data (root_page K Q) k)) ''# PAGE'' = None"
    using assms by (auto simp: dom_root_page root_page_def)
  then show "\<forall>l\<in>set (payload_lines (Data (root_page K Q)) order). Index l PageSection = None"
    by (simp add: payload_lines_def PageSection_def)
qed (simp_all add: PageSection_def)

lemma place_page_root:
  assumes "Index (unlines (payload_lines m order)) PageSection = None"
  shows "place_page
           (InitialContent @ NL @ PageSection @ NL @ ''PageID: 1'' @ NL @ ''LSN: 0'' @ NL
              @ ''Type: Index'' @ NL @ unlines (payload_lines m order))
           ''PageID: 1'' new
         = Inr (InitialContent @ NL @ new)"
  using assms
  by (simp add: place_page_def InitialContent_def NL_def PageSection_def HeaderSection_def)

lemma root_file_expand:
  assumes "set order = dom (Data (root_page K Q))"
  shows "root_file K Q order
       = InitialContent @ NL @ PageSection @ NL @ ''PageID: 1'' @ NL @ ''LSN: 0'' @ NL
           @ ''Type: Index'' @ NL @ unlines (payload_lines (Data (root_page K Q)) order)"
  using payload_line_unlines [of order "Data (root_page K Q)"] assms
  by (simp add: root_file_def NewPageContent_def root_page_def NL_def)

lemma WritePage_root:
  assumes "FileContent fh = root_file K Q order" "set order = dom (Data (root_page K Q))"
    and "graphic_text K" "graphic_text Q" "1 \<le> PageCount fh" "PageID (Header pg) = 1"
  shows "WritePage fh pg order'
       = (None, fh\<lparr>FileContent := InitialContent @ NL @ NewPageContent pg order'\<rparr>)"
proof -
  have "place_page (FileContent fh) ''PageID: 1'' (NewPageContent pg order')
      = Inr (InitialContent @ NL @ NewPageContent pg order')"
    unfolding assms(1) root_file_expand [OF assms(2)]
    using root_payload_no_section [OF assms(3,4,2)] by (rule place_page_root)
  with assms(5,6) show ?thesis by (simp add: WritePage_def PageIDMarker_def)
qed

lemma entries_Join:
  assumes "entries n xs"
  shows "graphic_text (Join xs '','')" "length (Join xs '','') \<le> 3 * n + 2"
    "(if Join xs '','' \<noteq> [] then Split (Join xs '','') '','' else []) = xs"
proof -
  from assms have g: "\<forall>x\<in>set xs. graphic_text x" by (simp add: entries_def)
  have "set (Join xs '','') \<subseteq> \<Union> (set ` set xs) \<union> set '',''" by (rule set_Join)
  with g show "graphic_text (Join xs '','')" by (auto simp: graphic_text_def graphic_def)
  from assms have "length xs \<le> 3" "\<forall>x\<in>set xs. length x \<le> n" by (simp_all add: entries_def)
  then show "length (Join xs '','') \<le> 3 * n + 2"
    by (induction xs "'',''" rule: Join.induct) (auto, (case_tac ys; simp)+)
  from assms have ne: "\<forall>x\<in>set xs. x \<noteq> []" and nc: "\<forall>x\<in>set xs. CHR '','' \<notin> set x"
    by (simp_all add: entries_def)
  show "(if Join xs '','' \<noteq> [] then Split (Join xs '','') '','' else []) = xs"
  proof (cases "xs = []")
    case True
    then show ?thesis by simp
  next
    case False
    with ne have "Join xs '','' \<noteq> []" by (simp add: Join_eq_Nil)
    with False nc show ?thesis by (simp add: Split_Join)
  qed
qed

lemma readNode_leaf_store:
  assumes "leaf_store tree ks ps" "entries MaxKeyLength ks" "entries 100 ps"
  shows "readNode tree (RootPageID tree) = Inr (leaf_node ks ps)"
proof -
  let ?K = "Join ks '',''" and ?Q = "Join ps '',''"
  from assms(1) obtain order where root: "RootPageID tree = 1"
    and count: "1 \<le> PageCount (FileHandler tree)"
    and order: "iteration_order order (Data (root_page ?K ?Q))"
    and content: "FileContent (FileHandler tree) = root_file ?K ?Q order"
    by (auto simp: leaf_store_def)
  have K: "graphic_text ?K" "length ?K < 65530"
    using entries_Join(1,2) [OF assms(2)] by (simp_all add: MaxKeyLength_def)
  have Q: "graphic_text ?Q" "length ?Q < 65526"
    using entries_Join(1,2) [OF assms(3)] by simp_all
  have "ReadPage (FileHandler tree) 1 = Inr (root_page ?K ?Q)"
    using K Q order content count by (rule ReadPage_root_file)
  then show ?thesis
    using entries_Join(3) [OF assms(2)] entries_Join(3) [OF assms(3)]
    by (simp add: readNode_def root leaf_node_def root_page_def ParseBool_def)
qed

lemma root_order_iteration: "root_order order \<longleftrightarrow> iteration_order order (Data (root_page K Q))"
  by (simp add: root_order_def iteration_order_def dom_root_page)

lemma root_page_update:
  "(root_page K Q)\<lparr>Data := (Data (root_page K Q))(''IsLeaf'' \<mapsto> FormatBool True, ''Keys'' \<mapsto> K',
      ''Pointers'' \<mapsto> Q')\<rparr> = root_page K' Q'"
proof -
  have "(Data (root_page K Q))(''IsLeaf'' \<mapsto> FormatBool True, ''Keys'' \<mapsto> K', ''Pointers'' \<mapsto> Q')
      = Data (root_page K' Q')"
    by (rule ext) (simp add: root_page_def FormatBool_def)
  then show ?thesis by (simp add: root_page_def)
qed

lemma writeNode_leaf_store:
  assumes "leaf_store tree ks ps" "entries MaxKeyLength ks" "entries 100 ps" "root_order order'"
  shows "\<exists>tree'. writeNode tree ((leaf_node ks ps)\<lparr>Keys := ks', Pointers := ps'\<rparr>) order'
            = (None, tree') \<and> leaf_store tree' ks' ps'"
proof -
  let ?K = "Join ks '',''" and ?Q = "Join ps '',''"
  let ?pg = "root_page (Join ks' '','') (Join ps' '','')"
  from assms(1) obtain order where root: "RootPageID tree = 1"
    and count: "1 \<le> PageCount (FileHandler tree)"
    and order: "iteration_order order (Data (root_page ?K ?Q))"
    and content: "FileContent (FileHandler tree) = root_file ?K ?Q order"
    by (auto simp: leaf_store_def)
  from order have dom: "set order = dom (Data (root_page ?K ?Q))" by (simp add: iteration_order_def)
  have w: "WritePage (FileHandler tree) ?pg order'
      = (None, (FileHandler tree)\<lparr>FileContent := InitialContent @ NL @ NewPageContent ?pg order'\<rparr>)"
    using content dom entries_Join(1) [OF assms(2)] entries_Join(1) [OF assms(3)] count
    by (rule WritePage_root) (simp add: root_page_def)
  let ?tree = "tree\<lparr>FileHandler := (FileHandler tree)\<lparr>FileContent := root_file (Join ks' '','') (Join ps' '','') order'\<rparr>\<rparr>"
  have "writeNode tree ((leaf_node ks ps)\<lparr>Keys := ks', Pointers := ps'\<rparr>) order' = (None, ?tree)"
    using w by (simp add: writeNode_def leaf_node_def root_page_update root_file_def)
  moreover have "leaf_store ?tree ks' ps'"
    using root count assms(4) root_order_iteration [of order']
    by (auto simp: leaf_store_def)
  ultimately show ?thesis by blast
qed

lemma mid: "(i::nat) < j \<Longrightarrow> i \<le> (i + j) div 2 \<and> (i + j) div 2 < j"
  by linarith

lemma Search_unfold:
  "Search i j f = (if i < j then (if \<not> f ((i + j) div 2) then Search ((i + j) div 2 + 1) j f
      else Search i ((i + j) div 2) f) else i)"
  by (rule Search.simps)

lemma Search_correct:
  assumes mono: "\<forall>a b. a \<le> b \<and> b < n \<longrightarrow> f a \<longrightarrow> f b"
  shows "i \<le> j \<Longrightarrow> j \<le> n \<Longrightarrow> \<forall>x<i. \<not> f x \<Longrightarrow> \<forall>x. j \<le> x \<and> x < n \<longrightarrow> f x \<Longrightarrow>
    Search i j f \<le> n \<and> (\<forall>x<Search i j f. \<not> f x) \<and> (\<forall>x. Search i j f \<le> x \<and> x < n \<longrightarrow> f x)"
proof (induction "j - i" arbitrary: i j rule: less_induct)
  case less
  show ?case
  proof (cases "i < j")
    case False
    then have "Search i j f = i" by (subst Search_unfold) simp
    moreover from False less.prems have "i = j" by simp
    ultimately show ?thesis using less.prems by simp
  next
    case True
    let ?h = "(i + j) div 2"
    from True have h: "i \<le> ?h" "?h < j" using mid by blast+
    show ?thesis
    proof (cases "f ?h")
      case False
      have low: "\<forall>x<?h + 1. \<not> f x"
      proof (intro allI impI)
        fix x assume "x < ?h + 1"
        then have "x \<le> ?h" by simp
        moreover from h less.prems have "?h < n" by simp
        ultimately have "f x \<longrightarrow> f ?h" using mono by blast
        with False show "\<not> f x" by blast
      qed
      have eq: "Search i j f = Search (?h + 1) j f"
        using True False by (subst Search_unfold) simp
      from h have "j - (?h + 1) < j - i" "?h + 1 \<le> j" by simp_all
      from less.hyps [OF this less.prems(2) low less.prems(4)]
      show ?thesis unfolding eq .
    next
      case fh: True
      have high: "\<forall>x. ?h \<le> x \<and> x < n \<longrightarrow> f x"
        using mono fh by blast
      have eq: "Search i j f = Search i ?h f"
        using True fh by (subst Search_unfold) simp
      from h less.prems have "?h - i < j - i" "?h \<le> n" by simp_all
      from less.hyps [OF this(1) h(1) this(2) less.prems(3) high]
      show ?thesis unfolding eq .
    qed
  qed
qed

lemma SearchStrings_split:
  assumes "sorted_wrt (<) ks"
  shows "SearchStrings ks key \<le> length ks
      \<and> (\<forall>x<SearchStrings ks key. ks ! x < key)
      \<and> (\<forall>x. SearchStrings ks key \<le> x \<and> x < length ks \<longrightarrow> key \<le> ks ! x)"
proof -
  define f where "f = (\<lambda>i. key \<le> ks ! i)"
  have mono: "\<forall>a b. a \<le> b \<and> b < length ks \<longrightarrow> f a \<longrightarrow> f b"
  proof (intro allI impI)
    fix a b assume ab: "a \<le> b \<and> b < length ks" and fa: "f a"
    have "ks ! a \<le> ks ! b"
    proof (cases "a = b")
      case True
      then show ?thesis by simp
    next
      case False
      with ab have "a < b" "b < length ks" by simp_all
      with assms have "ks ! a < ks ! b" by (rule sorted_wrt_nth_less)
      then show ?thesis by (rule less_imp_le)
    qed
    with fa show "f b" unfolding f_def by (rule order_trans)
  qed
  have beyond: "\<forall>x. length ks \<le> x \<and> x < length ks \<longrightarrow> f x"
  proof (intro allI impI)
    fix x assume "length ks \<le> x \<and> x < length ks"
    then have False by linarith
    then show "f x" ..
  qed
  have "Search 0 (length ks) f \<le> length ks \<and> (\<forall>x<Search 0 (length ks) f. \<not> f x)
      \<and> (\<forall>x. Search 0 (length ks) f \<le> x \<and> x < length ks \<longrightarrow> f x)"
    using mono _ _ _ beyond by (rule Search_correct) simp_all
  then have b: "Search 0 (length ks) f \<le> length ks"
    and lo: "\<And>x. x < Search 0 (length ks) f \<Longrightarrow> \<not> f x"
    and hi: "\<And>x. Search 0 (length ks) f \<le> x \<Longrightarrow> x < length ks \<Longrightarrow> f x"
    by blast+
  have eq: "SearchStrings ks key = Search 0 (length ks) f"
    unfolding SearchStrings_def f_def ..
  show ?thesis
  proof (intro conjI allI impI)
    show "SearchStrings ks key \<le> length ks" unfolding eq by (rule b)
  next
    fix x assume "x < SearchStrings ks key"
    then have "\<not> f x" unfolding eq by (rule lo)
    then show "ks ! x < key" unfolding f_def by (simp only: not_le)
  next
    fix x assume "SearchStrings ks key \<le> x \<and> x < length ks"
    then have "f x" unfolding eq using hi by blast
    then show "key \<le> ks ! x" unfolding f_def .
  qed
qed

lemma insert_sorted:
  assumes "sorted_wrt (<) ks" "key \<notin> set ks"
  shows "sorted_wrt (<) (take (SearchStrings ks key) ks @ [key] @ drop (SearchStrings ks key) ks)"
proof -
  let ?r = "SearchStrings ks key"
  note r = SearchStrings_split [OF assms(1), of key]
  have st: "sorted_wrt (<) (take ?r ks)" and sd: "sorted_wrt (<) (drop ?r ks)"
    using assms(1) by (rule sorted_wrt_take, rule sorted_wrt_drop)
  have lo: "x < key" if "x \<in> set (take ?r ks)" for x
  proof -
    from that obtain i where i: "i < length (take ?r ks)" "take ?r ks ! i = x"
      unfolding in_set_conv_nth by blast
    then have "i < ?r" by simp
    with r have "ks ! i < key" by blast
    with i show ?thesis by simp
  qed
  have hi: "key < x" if "x \<in> set (drop ?r ks)" for x
  proof -
    from that obtain i where i: "i < length (drop ?r ks)" "drop ?r ks ! i = x"
      unfolding in_set_conv_nth by blast
    then have "?r \<le> ?r + i \<and> ?r + i < length ks" by simp
    with r have "key \<le> ks ! (?r + i)" by blast
    with i r have "key \<le> x" by simp
    moreover from that have "x \<in> set ks" by (rule in_set_dropD)
    with assms(2) have "key \<noteq> x" by blast
    ultimately show ?thesis by (rule le_neq_trans)
  qed
  have cross: "x < y" if "x \<in> set (take ?r ks)" "y \<in> set (drop ?r ks)" for x y
    using lo [OF that(1)] hi [OF that(2)] by (rule less_trans)
  show ?thesis
    unfolding sorted_wrt_append
    using st sd lo hi cross by simp
qed

lemma graphic_digit_text: "graphic_text (FormatUint n)"
  by (auto simp: graphic_text_def intro: is_digit_graphic FormatUint_digits)

lemma colon_not_digit: "CHR '':'' \<notin> set (FormatUint n)" "CHR '','' \<notin> set (FormatUint n)"
  using is_digit_not_special FormatUint_digits by blast+

lemma length_FormatUint64: "n < 2 ^ 64 \<Longrightarrow> length (FormatUint n) \<le> 20"
  by (rule length_FormatUint) simp_all

lemma pointer_text_props:
  assumes "uint_pointer p"
  shows "pointer_text p \<noteq> []" "graphic_text (pointer_text p)" "CHR '','' \<notin> set (pointer_text p)"
    "length (pointer_text p) \<le> 100"
    "Split (pointer_text p) '':'' = [FormatUint (fst p), FormatUint (snd p)]"
proof -
  show "pointer_text p \<noteq> []" by (simp add: pointer_text_def)
  show "graphic_text (pointer_text p)" by (simp add: pointer_text_def graphic_digit_text graphic_def)
  show "CHR '','' \<notin> set (pointer_text p)" by (simp add: pointer_text_def colon_not_digit)
  from assms have "length (FormatUint (fst p)) \<le> 20" "length (FormatUint (snd p)) \<le> 20"
    by (simp_all add: uint_pointer_def length_FormatUint64)
  then show "length (pointer_text p) \<le> 100" by (simp add: pointer_text_def)
  have "Split (FormatUint (fst p) @ CHR '':'' # FormatUint (snd p)) '':''
      = FormatUint (fst p) # Split (FormatUint (snd p)) '':''"
    by (rule Split_cons) (rule colon_not_digit)
  then show "Split (pointer_text p) '':'' = [FormatUint (fst p), FormatUint (snd p)]"
    by (simp add: pointer_text_def Split_no_sep colon_not_digit)
qed

lemma stored_entries:
  assumes "stored tree kvs"
  shows "entries MaxKeyLength (map fst kvs)" "entries 100 (map (pointer_text \<circ> snd) kvs)"
proof -
  from assms have len: "length kvs \<le> 3"
    and ok: "\<forall>e\<in>set kvs. index_key (fst e) \<and> uint_pointer (snd e)"
    by (simp_all add: stored_def)
  from len ok show "entries MaxKeyLength (map fst kvs)"
    by (auto simp: entries_def index_key_def graphic_text_def)
  from len ok show "entries 100 (map (pointer_text \<circ> snd) kvs)"
    by (auto simp: entries_def pointer_text_props)
qed

lemma readNode_stored:
  assumes "stored tree kvs"
  shows "readNode tree (RootPageID tree) = Inr (leaf_node (map fst kvs) (map (pointer_text \<circ> snd) kvs))"
  using assms stored_entries [OF assms] by (intro readNode_leaf_store) (simp_all add: stored_def)

lemma first_index_map_of:
  "first_index (map fst kvs) key = None \<Longrightarrow> map_of kvs key = None"
  "first_index (map fst kvs) key = Some i \<Longrightarrow> i < length kvs \<and> map_of kvs key = Some (snd (kvs ! i))"
proof (induction kvs arbitrary: i)
  case Nil
  { case 1 then show ?case by simp }
  { case 2 then show ?case by simp }
next
  case (Cons e kvs)
  { case 1 then show ?case using Cons.IH(1) by (cases e) (auto split: if_splits) }
  { case 2 then show ?case using Cons.IH(2) by (cases e) (auto split: if_splits) }
qed

lemma index_pointer_uint: "index_pointer p \<Longrightarrow> uint_pointer p"
  by (simp add: index_pointer_def uint_pointer_def)

lemma Find_stored:
  assumes "stored tree kvs" and "\<forall>e\<in>set kvs. index_pointer (snd e)"
  shows "Find tree key = Inr (case map_of kvs key of None \<Rightarrow> (0, 0) | Some p \<Rightarrow> p)"
proof (cases "first_index (map fst kvs) key")
  case None
  with readNode_stored [OF assms(1)] first_index_map_of(1) [OF None] show ?thesis
    by (simp add: Find_def leaf_node_def)
next
  case (Some i)
  from first_index_map_of(2) [OF Some] have i: "i < length kvs"
    and m: "map_of kvs key = Some (snd (kvs ! i))" by simp_all
  from i have "kvs ! i \<in> set kvs" by simp
  with assms have p: "index_pointer (snd (kvs ! i))" by blast
  then have "ParseUint (FormatUint (fst (snd (kvs ! i)))) 32 = fst (snd (kvs ! i))"
    "ParseUint (FormatUint (snd (snd (kvs ! i)))) 32 = snd (snd (kvs ! i))"
    by (simp_all add: index_pointer_def ParseUint_FormatUint)
  with readNode_stored [OF assms(1)] Some i m pointer_text_props(5) [OF index_pointer_uint [OF p]]
  show ?thesis
    by (simp add: Find_def leaf_node_def)
qed

lemma Insert_stored:
  assumes st: "stored tree kvs" and room: "length kvs < 3" and fresh: "key \<notin> fst ` set kvs"
    and key: "index_key key" and ptr: "uint_pointer p" and order: "root_order order"
  shows "\<exists>tree'. BPlusTree_Insert tree key (fst p) (snd p) order = (None, tree')
           \<and> stored tree' (ins_entry key p kvs)"
proof -
  let ?ks = "map fst kvs" and ?ps = "map (pointer_text \<circ> snd) kvs"
  let ?r = "SearchStrings ?ks key"
  let ?kvs = "ins_entry key p kvs"
  from st have sorted: "sorted_wrt (<) ?ks" and ls: "leaf_store tree ?ks ?ps"
    and ok: "\<forall>e\<in>set kvs. index_key (fst e) \<and> uint_pointer (snd e)"
    by (simp_all add: stored_def)
  have r: "?r \<le> length kvs" using SearchStrings_split [OF sorted, of key] by simp
  have ks': "map fst ?kvs = take ?r ?ks @ [key] @ drop ?r ?ks"
    and ps': "map (pointer_text \<circ> snd) ?kvs = take ?r ?ps @ [pointer_text p] @ drop ?r ?ps"
    by (simp_all add: ins_entry_def take_map drop_map)
  obtain tree' where w: "writeNode tree ((leaf_node ?ks ?ps)\<lparr>Keys := map fst ?kvs,
        Pointers := map (pointer_text \<circ> snd) ?kvs\<rparr>) order = (None, tree')"
    and ls': "leaf_store tree' (map fst ?kvs) (map (pointer_text \<circ> snd) ?kvs)"
    using writeNode_leaf_store [OF ls stored_entries [OF st] order] by blast
  have "BPlusTree_Insert tree key (fst p) (snd p) order = (None, tree')"
    using readNode_stored [OF st] room r w
    by (simp add: BPlusTree_Insert_def BTreeOrder_def leaf_node_def ks' ps' pointer_text_def)
  moreover have "stored tree' ?kvs"
  proof -
    from fresh have "key \<notin> set ?ks" by simp
    with sorted have "sorted_wrt (<) (map fst ?kvs)" unfolding ks' by (rule insert_sorted)
    moreover have "set ?kvs = insert (key, p) (set kvs)"
    proof -
      have "set (take ?r kvs) \<union> set (drop ?r kvs) = set kvs"
        by (metis append_take_drop_id set_append)
      then show ?thesis by (auto simp: ins_entry_def)
    qed
    with ok key ptr have "\<forall>e\<in>set ?kvs. index_key (fst e) \<and> uint_pointer (snd e)" by simp
    moreover from room r have "length ?kvs \<le> 3" by (simp add: ins_entry_def)
    ultimately show ?thesis using ls' by (simp add: stored_def)
  qed
  ultimately show ?thesis by blast
qed

lemma Insert_full:
  assumes "stored tree kvs" "length kvs = 3"
  shows "BPlusTree_Insert tree key pageID entryIndex order = (None, tree)"
  using readNode_stored [OF assms(1)] assms(2)
  by (simp add: BPlusTree_Insert_def BTreeOrder_def leaf_node_def)

lemma Delete_absent:
  assumes "stored tree kvs" "key \<notin> fst ` set kvs"
  shows "BPlusTree_Delete tree key order = (Some KeyNotFound, tree)"
proof -
  from assms(2) have "first_index (map fst kvs) key = None" by (simp add: first_index_None)
  with readNode_stored [OF assms(1)] show ?thesis
    by (simp add: BPlusTree_Delete_def leaf_node_def)
qed

lemma Delete_stored:
  assumes st: "stored tree kvs" and present: "key \<in> fst ` set kvs" and order: "root_order order"
  shows "\<exists>tree'. BPlusTree_Delete tree key order = (None, tree') \<and> stored tree' (del_entry key kvs)"
proof -
  let ?ks = "map fst kvs" and ?ps = "map (pointer_text \<circ> snd) kvs"
  from present obtain i where i: "first_index ?ks key = Some i"
    by (cases "first_index ?ks key") (simp_all add: first_index_None)
  then have len: "i < length kvs" using first_index_Some [OF i] by simp
  let ?kvs = "take i kvs @ drop (Suc i) kvs"
  from st have sorted: "sorted_wrt (<) ?ks" and ls: "leaf_store tree ?ks ?ps"
    and ok: "\<forall>e\<in>set kvs. index_key (fst e) \<and> uint_pointer (snd e)"
    and l3: "length kvs \<le> 3"
    by (simp_all add: stored_def)
  have del: "del_entry key kvs = ?kvs" by (simp add: del_entry_def i)
  obtain tree' where w: "writeNode tree ((leaf_node ?ks ?ps)\<lparr>Keys := map fst ?kvs,
        Pointers := map (pointer_text \<circ> snd) ?kvs\<rparr>) order = (None, tree')"
    and ls': "leaf_store tree' (map fst ?kvs) (map (pointer_text \<circ> snd) ?kvs)"
    using writeNode_leaf_store [OF ls stored_entries [OF st] order] by blast
  have "BPlusTree_Delete tree key order = (None, tree')"
    using readNode_stored [OF st] i len w
    by (simp add: BPlusTree_Delete_def leaf_node_def take_map drop_map)
  moreover have "stored tree' ?kvs"
  proof -
    have "?ks = take i ?ks @ ?ks ! i # drop (Suc i) ?ks"
      using len by (intro id_take_nth_drop) simp
    with sorted have "sorted_wrt (<) (take i ?ks @ ?ks ! i # drop (Suc i) ?ks)" by simp
    then have "sorted_wrt (<) (take i ?ks @ drop (Suc i) ?ks)"
      by (simp add: sorted_wrt_append)
    then have "sorted_wrt (<) (map fst ?kvs)" by (simp add: take_map drop_map)
    moreover have "set ?kvs \<subseteq> set kvs"
      using set_take_subset [of i kvs] set_drop_subset [of "Suc i" kvs] by auto
    with ok have "\<forall>e\<in>set ?kvs. index_key (fst e) \<and> uint_pointer (snd e)" by blast
    moreover from l3 have "length ?kvs \<le> 3" by simp
    ultimately show ?thesis using ls' by (simp add: stored_def)
  qed
  ultimately show ?thesis unfolding del by blast
qed

lemma Scanner_InitialContent:
  "Scanner InitialContent = map Line [HeaderSection, ''PAGESIZE=4096'', ''ENCODING=UTF-8'',
      ''VERSION=1.0'', ''PAGES=0'', []]"
proof -
  define L where "L = [HeaderSection, ''PAGESIZE=4096'', ''ENCODING=UTF-8'',
      ''VERSION=1.0'', ''PAGES=0'', []]"
  have a: "InitialContent = unlines L"
    by (simp add: L_def InitialContent_def NL_def HeaderSection_def)
  have "\<forall>l\<in>set L. scannable l"
    by (simp add: L_def scannable_def HeaderSection_def dropCR_def MaxScanTokenSize_def)
  then have "Scanner (unlines L) = map Line L" by (rule Scanner_unlines)
  then have "Scanner InitialContent = map Line L" by (simp only: a)
  then show ?thesis unfolding L_def .
qed

lemma SkipSpace_digit [simp]: "is_digit c \<Longrightarrow> SkipSpace (c # cs) = Some (c # cs)"
  by (rule SkipSpace_graphic) (rule is_digit_graphic)

lemma NewTextFileHandler_None: "NewTextFileHandler None = Inr fresh_handler"
  by (simp add: NewTextFileHandler_def LoadMetadata_def Scanner_InitialContent fresh_handler_def
      LoadMetadata_line_def HeaderSection_def HasPrefix_def PageSection_def SplitN_2
      TrimSpace_graphic_text graphic_def Sscanf_int_def Sscanf_uint_def is_digit_def digit_val_def
      DefaultPageSize_def)

lemma NewBPlusTree_fresh: "NewBPlusTree fresh_handler order = Inr (empty_tree order)"
proof -
  have r: "ReadPage fresh_handler 1 = Inl InvalidPageID"
    by (simp add: ReadPage_def fresh_handler_def)
  have a: "AllocatePage fresh_handler
      = (\<lparr>Header = \<lparr>PageLSN = 0, PageID = 1, PageType = []\<rparr>, Data = Map.empty\<rparr>,
         fresh_handler\<lparr>PageCount := 1\<rparr>)"
    by (simp add: AllocatePage_def fresh_handler_def)
  have p: "place_page InitialContent ''PageID: 1'' new = Inr (InitialContent @ NL @ new)" for new
    by (simp add: place_page_def InitialContent_def HeaderSection_def NL_def)
  have w: "WritePage (fresh_handler\<lparr>PageCount := 1\<rparr>) (root_page [] []) order
      = (None, fresh_handler\<lparr>PageCount := 1, FileContent := root_file [] [] order\<rparr>)"
    by (simp add: WritePage_def PageIDMarker_def root_page_def p fresh_handler_def root_file_def)
  have pg: "\<lparr>Header = \<lparr>PageLSN = 0, PageID = 1, PageType = []\<rparr>, Data = Map.empty\<rparr>
      \<lparr>Header := (Header \<lparr>Header = \<lparr>PageLSN = 0, PageID = 1, PageType = []\<rparr>,
                          Data = Map.empty\<rparr>)\<lparr>PageType := ''Index''\<rparr>,
       Data := (Data \<lparr>Header = \<lparr>PageLSN = 0, PageID = 1, PageType = []\<rparr>,
                       Data = Map.empty\<rparr>)(''IsLeaf'' \<mapsto> ''true'', ''Keys'' \<mapsto> [],
                         ''Pointers'' \<mapsto> [])\<rparr> = root_page [] []"
    by (simp add: root_page_def)
  have "NewBPlusTree fresh_handler order
      = Inr \<lparr>RootPageID = PageID (Header \<lparr>Header = \<lparr>PageLSN = 0, PageID = 1, PageType = []\<rparr>,
                                               Data = Map.empty\<rparr>),
             FileHandler = fresh_handler\<lparr>PageCount := 1, FileContent := root_file [] [] order\<rparr>\<rparr>"
    unfolding NewBPlusTree_def r a by (simp only: pg w sum.case prod.case option.case)
  then show ?thesis by (simp add: empty_tree_def fresh_handler_def)
qed

lemma stored_empty_tree: "root_order order \<Longrightarrow> stored (empty_tree order) []"
  using root_order_iteration [of order "[]" "[]"]
  by (auto simp: stored_def leaf_store_def empty_tree_def)

lemma root_order_index_order [simp]: "root_order index_order"
  by (simp add: root_order_def index_order_def)

lemma Search_empty [simp]: "Search i i f = i"
  by (subst Search.simps) simp

lemma index_key_letters [simp]:
  "index_key ''a''" "index_key ''b''" "index_key ''c''" "index_key ''d''" "index_key ''e''"
  "index_key ''user:1''"
  by (simp_all add: index_key_def graphic_def MaxKeyLength_def)

lemma run_snoc: "run tree (xs @ [x]) = apply_op (run tree xs) x"
  by (induction xs arbitrary: tree) simp_all

lemma run_Insert_stored:
  assumes "stored (run t xs) kvs" "length kvs < 3" "k \<notin> fst ` set kvs" "index_key k"
    and "uint_pointer (p, e)" "root_order order"
  shows "stored (run t (xs @ [(Insert_op k p e, order)])) (ins_entry k (p, e) kvs)"
proof -
  have "\<exists>t'. BPlusTree_Insert (run t xs) k (fst (p, e)) (snd (p, e)) order = (None, t')
      \<and> stored t' (ins_entry k (p, e) kvs)"
    using assms by (rule Insert_stored)
  then show ?thesis by (auto simp: run_snoc)
qed

lemma ins_entry_examples:
  "ins_entry ''a'' v [] = [(''a'', v)]"
  "ins_entry ''b'' v [(''a'', x)] = [(''a'', x), (''b'', v)]"
  "ins_entry ''c'' v [(''a'', x), (''b'', y)] = [(''a'', x), (''b'', y), (''c'', v)]"
  by (simp_all add: ins_entry_def SearchStrings_def Search.simps [of 0 "Suc 0"]
      Search.simps [of 0 "Suc (Suc 0)"] Search.simps [of "Suc (Suc 0)" "Suc (Suc 0)"])

lemma stored_a: "stored (run (empty_tree index_order) [(Insert_op ''a'' 2 1, index_order)]) [(''a'', 2, 1)]"
  using run_Insert_stored [of "empty_tree index_order" "[]" "[]" "''a''" 2 1 index_order]
  by (simp add: uint_pointer_def ins_entry_examples stored_empty_tree)

lemma stored_ab:
  "stored (run (empty_tree index_order) [(Insert_op ''a'' 2 1, index_order),
      (Insert_op ''b'' 3 1, index_order)]) [(''a'', 2, 1), (''b'', 3, 1)]"
  using run_Insert_stored [OF stored_a, of "''b''" 3 1 index_order]
  by (simp add: uint_pointer_def ins_entry_examples)

lemma stored_abc:
  "stored (run (empty_tree index_order) three_inserts) [(''a'', 2, 1), (''b'', 3, 1), (''c'', 4, 1)]"
  using run_Insert_stored [OF stored_ab, of "''c''" 4 1 index_order]
  by (simp add: uint_pointer_def ins_entry_examples three_inserts_def)

lemma root_view_stored:
  "stored tree kvs \<Longrightarrow> root_view tree = Inr (True, map fst kvs, map (pointer_text \<circ> snd) kvs, [])"
  by (simp add: root_view_def readNode_stored leaf_node_def)

lemma apply_op_stored:
  assumes "stored tree kvs" "root_order order"
    and "case x of Insert_op k p e \<Rightarrow> index_key k \<and> uint_pointer (p, e) \<and> k \<notin> fst ` set kvs
         | Delete_op k \<Rightarrow> True"
  shows "stored (apply_op tree (x, order)) (step_entries kvs x)"
proof (cases x)
  case (Insert_op k p e)
  with assms(3) have k: "index_key k" "uint_pointer (p, e)" "k \<notin> fst ` set kvs" by simp_all
  show ?thesis
  proof (cases "length kvs < 3")
    case True
    have "\<exists>t'. BPlusTree_Insert tree k (fst (p, e)) (snd (p, e)) order = (None, t')
        \<and> stored t' (ins_entry k (p, e) kvs)"
      using assms(1) True k(3,1,2) assms(2) by (rule Insert_stored)
    with True Insert_op show ?thesis by (auto simp: BTreeOrder_def)
  next
    case False
    with assms(1) have "length kvs = 3" by (simp add: stored_def)
    with assms(1) have "BPlusTree_Insert tree k p e order = (None, tree)" by (rule Insert_full)
    with False Insert_op assms(1) show ?thesis by (simp add: BTreeOrder_def)
  qed
next
  case (Delete_op k)
  show ?thesis
  proof (cases "k \<in> fst ` set kvs")
    case True
    with assms(1) have "\<exists>t'. BPlusTree_Delete tree k order = (None, t') \<and> stored t' (del_entry k kvs)"
      using assms(2) by (rule Delete_stored)
    with Delete_op show ?thesis by auto
  next
    case False
    with assms(1) have "BPlusTree_Delete tree k order = (Some KeyNotFound, tree)"
      by (rule Delete_absent)
    moreover from False have "first_index (map fst kvs) k = None"
      by (simp add: first_index_None)
    then have "del_entry k kvs = kvs" by (simp add: del_entry_def)
    ultimately show ?thesis using Delete_op assms(1) by simp
  qed
qed

lemma sorted_keys_distinct: "sorted_wrt (<) (ks :: string list) \<Longrightarrow> distinct ks"
proof (induction ks)
  case Nil
  then show ?case by simp
next
  case (Cons k ks)
  have "k \<notin> set ks"
  proof
    assume "k \<in> set ks"
    moreover from Cons.prems have "\<forall>x\<in>set ks. k < x" by simp
    ultimately have "k < k" by blast
    then show False by (simp only: less_irrefl)
  qed
  with Cons show ?case by simp
qed

lemma map_of_ins_entry:
  assumes "key \<notin> fst ` set kvs"
  shows "map_of (ins_entry key p kvs) = (map_of kvs)(key \<mapsto> p)"
proof
  fix k
  let ?r = "SearchStrings (map fst kvs) key"
  have kvs: "map_of kvs k = (map_of (drop ?r kvs) ++ map_of (take ?r kvs)) k"
    by (metis append_take_drop_id map_of_append)
  from assms have "key \<notin> fst ` set (take ?r kvs)"
    using set_take_subset [of ?r kvs] by blast
  then have "map_of (take ?r kvs) key = None" by (simp add: map_of_eq_None_iff)
  then show "map_of (ins_entry key p kvs) k = ((map_of kvs)(key \<mapsto> p)) k"
    using kvs by (auto simp: ins_entry_def map_add_def split: option.split)
qed

lemma map_of_del_entry:
  assumes "distinct (map fst kvs)"
  shows "map_of (del_entry key kvs) = (map_of kvs)(key := None)"
proof (cases "first_index (map fst kvs) key")
  case None
  then have "map_of kvs key = None" by (rule first_index_map_of)
  then have "(map_of kvs)(key := None) = map_of kvs" by (rule fun_upd_idem)
  with None show ?thesis by (simp add: del_entry_def)
next
  case (Some i)
  from first_index_Some [OF Some] have "i < length (map fst kvs)" "map fst kvs ! i = key"
    by simp_all
  then have i: "i < length kvs" "fst (kvs ! i) = key" by simp_all
  have split: "kvs = take i kvs @ kvs ! i # drop (Suc i) kvs"
    using i(1) by (rule id_take_nth_drop)
  with assms have d: "distinct (map fst (take i kvs) @ key # map fst (drop (Suc i) kvs))"
    using i(2) by (metis list.simps(9) map_append)
  then have a: "key \<notin> fst ` set (take i kvs)" "key \<notin> fst ` set (drop (Suc i) kvs)" by auto
  have "map_of kvs = map_of (take i kvs @ kvs ! i # drop (Suc i) kvs)" using split by simp
  also have "\<dots> = (map_of (take i kvs @ drop (Suc i) kvs))(key \<mapsto> snd (kvs ! i))"
  proof
    fix k
    from a have "map_of (take i kvs) key = None" by (simp add: map_of_eq_None_iff)
    then show "map_of (take i kvs @ kvs ! i # drop (Suc i) kvs) k
        = ((map_of (take i kvs @ drop (Suc i) kvs))(key \<mapsto> snd (kvs ! i))) k"
      using i(2) by (cases "kvs ! i") (auto simp: map_add_def split: option.split)
  qed
  finally have "(map_of kvs)(key := None) = (map_of (take i kvs @ drop (Suc i) kvs))(key := None)"
    by simp
  also from a have "map_of (take i kvs @ drop (Suc i) kvs) key = None"
    by (simp add: map_of_eq_None_iff image_Un)
  then have "(map_of (take i kvs @ drop (Suc i) kvs))(key := None)
      = map_of (take i kvs @ drop (Suc i) kvs)" by (rule fun_upd_idem)
  finally show ?thesis by (simp add: del_entry_def Some)
qed

lemma root_keys_stored: "stored tree kvs \<Longrightarrow> root_keys tree = map fst kvs"
  by (simp add: root_keys_def readNode_stored leaf_node_def)

lemma run_stored_new_keys:
  assumes "stored tree kvs" "inserts_new_keys tree ops"
  shows "stored (run tree ops) (foldl step_entries kvs (map fst ops))"
  using assms
proof (induction ops arbitrary: tree kvs)
  case Nil
  then show ?case by simp
next
  case (Cons x ops)
  obtain y order where x: "x = (y, order)" by (cases x)
  from Cons.prems(2) x have order: "root_order order"
    and rest: "inserts_new_keys (apply_op tree (y, order)) ops"
    by (cases y; simp)+
  have "case y of Insert_op k p e \<Rightarrow> index_key k \<and> uint_pointer (p, e) \<and> k \<notin> fst ` set kvs
      | Delete_op k \<Rightarrow> True"
    using Cons.prems(2) x root_keys_stored [OF Cons.prems(1)] by (cases y) simp_all
  with Cons.prems(1) order have "stored (apply_op tree (y, order)) (step_entries kvs y)"
    by (rule apply_op_stored)
  with rest have "stored (run (apply_op tree (y, order)) ops)
      (foldl step_entries (step_entries kvs y) (map fst ops))"
    by (intro Cons.IH)
  then show ?case by (simp add: x)
qed

lemma set_ins_entry: "set (ins_entry key p kvs) = insert (key, p) (set kvs)"
proof -
  have "set (take (SearchStrings (map fst kvs) key) kvs)
      \<union> set (drop (SearchStrings (map fst kvs) key) kvs) = set kvs"
    by (metis append_take_drop_id set_append)
  then show ?thesis by (auto simp: ins_entry_def)
qed

lemma set_del_entry: "set (del_entry key kvs) \<subseteq> set kvs"
proof (cases "first_index (map fst kvs) key")
  case None
  then show ?thesis by (simp add: del_entry_def)
next
  case (Some i)
  then show ?thesis
    using set_take_subset [of i kvs] set_drop_subset [of "Suc i" kvs]
    by (auto simp: del_entry_def)
qed

lemma stored_card: "stored tree kvs \<Longrightarrow> card (dom (map_of kvs)) = length kvs"
proof -
  assume "stored tree kvs"
  then have "distinct (map fst kvs)" by (simp add: stored_def sorted_keys_distinct)
  then have "card (set (map fst kvs)) = length (map fst kvs)" by (rule distinct_card)
  then show ?thesis by (simp add: dom_map_of_conv_image_fst)
qed

lemma run_model:
  assumes "stored tree kvs" "\<forall>e\<in>set kvs. index_pointer (snd e)" "admissible (map_of kvs) ops"
  shows "\<exists>kvs'. stored (run tree ops) kvs' \<and> (\<forall>e\<in>set kvs'. index_pointer (snd e))
           \<and> map_of kvs' = model (map_of kvs) (map fst ops)"
  using assms
proof (induction ops arbitrary: tree kvs)
  case Nil
  then show ?case by auto
next
  case (Cons x ops)
  obtain y order where x: "x = (y, order)" by (cases x)
  let ?t = "apply_op tree (y, order)" and ?kvs = "step_entries kvs y"
  have step: "stored ?t ?kvs \<and> (\<forall>e\<in>set ?kvs. index_pointer (snd e))
      \<and> admissible (map_of ?kvs) ops \<and> model (map_of kvs) (map fst (x # ops))
          = model (map_of ?kvs) (map fst ops)"
  proof (cases y)
    case (Insert_op k p e)
    with Cons.prems(3) x have k: "index_key k" "index_pointer (p, e)" "root_order order"
      "k \<notin> dom (map_of kvs)" "card (dom (map_of kvs)) < BTreeOrder - 1"
      "admissible ((map_of kvs)(k \<mapsto> (p, e))) ops" by simp_all
    from k(4) have new: "k \<notin> fst ` set kvs" by (simp add: dom_map_of_conv_image_fst)
    from k(5) have room: "length kvs < 3"
      using stored_card [OF Cons.prems(1)] by (simp add: BTreeOrder_def)
    then have s: "?kvs = ins_entry k (p, e) kvs" using Insert_op by (simp add: BTreeOrder_def)
    have "stored ?t ?kvs"
      using Cons.prems(1) k(3) unfolding Insert_op
      by (rule apply_op_stored [unfolded Insert_op]) (simp add: k new index_pointer_uint)
    moreover have "\<forall>e\<in>set ?kvs. index_pointer (snd e)"
      using Cons.prems(2) k(2) by (simp add: s set_ins_entry)
    moreover have "map_of ?kvs = (map_of kvs)(k \<mapsto> (p, e))"
      unfolding s using new by (rule map_of_ins_entry)
    ultimately show ?thesis using k(6) x Insert_op by simp
  next
    case (Delete_op k)
    with Cons.prems(3) x have k: "root_order order" "admissible ((map_of kvs)(k := None)) ops"
      by simp_all
    have "stored ?t ?kvs"
      using Cons.prems(1) k(1) unfolding Delete_op by (rule apply_op_stored) simp
    moreover have "\<forall>e\<in>set ?kvs. index_pointer (snd e)"
      using Cons.prems(2) set_del_entry [of k kvs] Delete_op by auto
    moreover from Cons.prems(1) have "distinct (map fst kvs)"
      by (simp add: stored_def sorted_keys_distinct)
    then have "map_of ?kvs = (map_of kvs)(k := None)"
      unfolding Delete_op step_entries.simps by (rule map_of_del_entry)
    ultimately show ?thesis using k(2) x Delete_op by simp
  qed
  then obtain kvs' where "stored (run ?t ops) kvs'" "\<forall>e\<in>set kvs'. index_pointer (snd e)"
      "map_of kvs' = model (map_of ?kvs) (map fst ops)"
    using Cons.IH [of ?t ?kvs] by blast
  with step show ?case unfolding x by auto
qed

lemma admissible_take: "admissible m ops \<Longrightarrow> admissible m (take n ops)"
proof (induction ops arbitrary: m n)
  case Nil
  then show ?case by simp
next
  case (Cons x ops)
  obtain y order where x: "x = (y, order)" by (cases x)
  show ?case
  proof (cases n)
    case 0
    then show ?thesis by simp
  next
    case (Suc n')
    with Cons x show ?thesis by (cases y) auto
  qed
qed

lemma FormatUint_one_digit [simp]:
  "FormatUint 2 = ''2''" "FormatUint 3 = ''3''" "FormatUint 4 = ''4''" "FormatUint 5 = ''5''"
  "FormatUint 6 = ''6''"
  by (simp_all add: FormatUint.simps char_of_def bit_Suc_0_iff)

lemma stored_three:
  assumes "root_order o0" "root_order o1" "root_order o2" "root_order o3"
  shows "stored (run (empty_tree o0) (take 3 (five_inserts o1 o2 o3 o4 o5)))
           [(''a'', 2, 1), (''b'', 3, 1), (''c'', 4, 1)]"
proof -
  have a: "stored (run (empty_tree o0) ([] @ [(Insert_op ''a'' 2 1, o1)])) (ins_entry ''a'' (2, 1) [])"
    using stored_empty_tree [OF assms(1)] assms(2)
    by (intro run_Insert_stored) (simp_all add: uint_pointer_def)
  have b: "stored (run (empty_tree o0) ([(Insert_op ''a'' 2 1, o1)] @ [(Insert_op ''b'' 3 1, o2)]))
      (ins_entry ''b'' (3, 1) [(''a'', 2, 1)])"
    using a assms(3) by (intro run_Insert_stored) (simp_all add: uint_pointer_def ins_entry_examples)
  have "stored (run (empty_tree o0) ([(Insert_op ''a'' 2 1, o1), (Insert_op ''b'' 3 1, o2)]
      @ [(Insert_op ''c'' 4 1, o3)])) (ins_entry ''c'' (4, 1) [(''a'', 2, 1), (''b'', 3, 1)])"
    using b assms(4) by (intro run_Insert_stored) (simp_all add: uint_pointer_def ins_entry_examples)
  then show ?thesis by (simp add: five_inserts_def ins_entry_examples)
qed

lemma stored_full_insert:
  assumes "stored (run tree xs) kvs" "length kvs = 3"
  shows "stored (run tree (xs @ [(Insert_op k p e, order)])) kvs"
  using Insert_full [OF assms, of k p e order] assms(1) by (simp add: run_snoc)

lemma stored_five:
  assumes "root_order o0" "root_order o1" "root_order o2" "root_order o3"
  shows "stored (run (empty_tree o0) (take 4 (five_inserts o1 o2 o3 o4 o5)))
           [(''a'', 2, 1), (''b'', 3, 1), (''c'', 4, 1)]"
    and "stored (run (empty_tree o0) (five_inserts o1 o2 o3 o4 o5))
           [(''a'', 2, 1), (''b'', 3, 1), (''c'', 4, 1)]"
proof -
  let ?kvs = "[(''a'', 2, 1), (''b'', 3, 1), (''c'', 4, 1)] :: (string \<times> nat \<times> nat) list"
  have 3: "stored (run (empty_tree o0) (take 3 (five_inserts o1 o2 o3 o4 o5))) ?kvs"
    using assms by (rule stored_three)
  have 4: "stored (run (empty_tree o0) (take 3 (five_inserts o1 o2 o3 o4 o5)
      @ [(Insert_op ''d'' 5 1, o4)])) ?kvs"
    using 3 by (rule stored_full_insert) simp
  then show "stored (run (empty_tree o0) (take 4 (five_inserts o1 o2 o3 o4 o5))) ?kvs"
    by (simp add: five_inserts_def)
  have "stored (run (empty_tree o0) ((take 3 (five_inserts o1 o2 o3 o4 o5)
      @ [(Insert_op ''d'' 5 1, o4)]) @ [(Insert_op ''e'' 6 1, o5)])) ?kvs"
    using 4 by (rule stored_full_insert) simp
  then show "stored (run (empty_tree o0) (five_inserts o1 o2 o3 o4 o5)) ?kvs"
    by (simp add: five_inserts_def)
qed

lemma pointer_text_examples [simp]:
  "pointer_text (2, 1) = ''2:1''" "pointer_text (3, 1) = ''3:1''" "pointer_text (4, 1) = ''4:1''"
  by (simp_all add: pointer_text_def)

lemma fresh_tree:
  assumes "NewTextFileHandler None = Inr fh" "NewBPlusTree fh order = Inr tree"
  shows "tree = empty_tree order"
  using assms by (simp add: NewTextFileHandler_None NewBPlusTree_fresh)

lemma inserts_new_keys_take: "inserts_new_keys tree ops \<Longrightarrow> inserts_new_keys tree (take n ops)"
proof (induction ops arbitrary: tree n)
  case Nil
  then show ?case by simp
next
  case (Cons x ops)
  obtain y order where x: "x = (y, order)" by (cases x)
  show ?case
  proof (cases n)
    case 0
    then show ?thesis by simp
  next
    case (Suc n')
    with Cons x show ?thesis by (cases y) auto
  qed
qed

text \<open>An insert into a root leaf with room, whatever the key.\<close>

lemma Insert_leaf_store:
  assumes "leaf_store tree ks ps" "entries MaxKeyLength ks" "entries 100 ps" "length ks < 3"
    and "SearchStrings ks key \<le> length ps" "root_order order"
  shows "\<exists>t'. BPlusTree_Insert tree key p e order = (None, t')
           \<and> leaf_store t' (take (SearchStrings ks key) ks @ [key] @ drop (SearchStrings ks key) ks)
                (take (SearchStrings ks key) ps @ [FormatUint p @ '':'' @ FormatUint e]
                   @ drop (SearchStrings ks key) ps)"
proof -
  let ?r = "SearchStrings ks key"
  obtain t' where "writeNode tree ((leaf_node ks ps)\<lparr>Keys := take ?r ks @ [key] @ drop ?r ks,
        Pointers := take ?r ps @ [FormatUint p @ '':'' @ FormatUint e] @ drop ?r ps\<rparr>) order
      = (None, t')"
    and "leaf_store t' (take ?r ks @ [key] @ drop ?r ks)
        (take ?r ps @ [FormatUint p @ '':'' @ FormatUint e] @ drop ?r ps)"
    using writeNode_leaf_store [OF assms(1,2,3,6)] by blast
  moreover have "readNode tree (RootPageID tree) = Inr (leaf_node ks ps)"
    using assms(1,2,3) by (rule readNode_leaf_store)
  ultimately show ?thesis
    using assms(4,5) by (auto simp: BPlusTree_Insert_def BTreeOrder_def leaf_node_def)
qed

lemma ReadPage_lines:
  assumes content: "FileContent fh = unlines (pre @ page_lines pg order @ post)"
    and scan: "\<forall>l\<in>set (pre @ page_lines pg order @ post). scannable l"
    and clean: "clean_page pg" and order: "iteration_order order (Data pg)"
    and pre: "\<forall>l\<in>set pre. \<not> Contains l (PageIDMarker (PageID (Header pg)))"
    and post: "post = [] \<or> HasPrefix (hd post) PageSection"
    and pid: "1 \<le> PageID (Header pg)" "PageID (Header pg) \<le> PageCount fh"
  shows "ReadPage fh (PageID (Header pg)) = Inr pg"
proof -
  define L where "L = pre @ page_lines pg order @ post"
  have "Scanner (unlines L) = map Line L"
    using scan unfolding L_def by (rule Scanner_unlines)
  then have s: "Scanner (FileContent fh)
      = map Line pre @ map Line (page_lines pg order) @ map Line post"
    by (simp add: content L_def)
  have p: "map Line post = [] \<or> (\<exists>l ts. map Line post = Line l # ts \<and> HasPrefix l PageSection)"
    using post by (cases post) auto
  have "ReadPage_loop (PageIDMarker (PageID (Header pg)))
      (map Line pre @ map Line (page_lines pg order) @ map Line post)
      (False, False, blank_page (PageID (Header pg))) = (True, pg, False)"
    using clean order pre p by (rule ReadPage_loop_section)
  with pid show ?thesis by (simp add: ReadPage_def s blank_page_def)
qed

lemma graphic_text_literal [simp]:
  "graphic_text ''false''" "graphic_text ''true''" "graphic_text ''Index''" "graphic_text ''Data''"
  "graphic_text ''IsLeaf''" "graphic_text ''Keys''" "graphic_text ''Pointers''"
  by (simp_all add: graphic_def)

lemma ReadPage_inner_root:
  "ReadPage (FileHandler inner_root_tree) (Suc 0) = Inr (Page inner_root_node)"
proof -
  let ?pg = "Page inner_root_node"
  have id: "PageID (Header ?pg) = 1" by (simp add: inner_root_node_def)
  have "ReadPage (FileHandler inner_root_tree) (PageID (Header ?pg)) = Inr ?pg"
  proof (rule ReadPage_lines [where order = "[''IsLeaf'', ''Keys'']"
        and pre = "[''# DATABASE HEADER'', ''PAGESIZE=4096'', ''ENCODING=UTF-8'',
          ''VERSION=1.0'', ''PAGES=1'', [], ''# PAGE'']" and post = "[]"])
    show "FileContent (FileHandler inner_root_tree)
        = unlines ([''# DATABASE HEADER'', ''PAGESIZE=4096'', ''ENCODING=UTF-8'',
          ''VERSION=1.0'', ''PAGES=1'', [], ''# PAGE'']
          @ page_lines ?pg [''IsLeaf'', ''Keys''] @ [])"
      by (simp add: inner_root_tree_def inner_root_file_def inner_root_node_def page_lines_def
          payload_lines_def PageIDMarker_def)
    show "\<forall>l\<in>set ([''# DATABASE HEADER'', ''PAGESIZE=4096'', ''ENCODING=UTF-8'',
          ''VERSION=1.0'', ''PAGES=1'', [], ''# PAGE'']
          @ page_lines ?pg [''IsLeaf'', ''Keys''] @ []). scannable l"
      by (simp add: inner_root_node_def page_lines_def payload_lines_def PageIDMarker_def
          scannable_def dropCR_def MaxScanTokenSize_def)
    show "clean_page ?pg"
      by (auto simp: clean_page_def inner_root_node_def graphic_def
          intro!: field_value_graphic field_key_graphic)
    show "iteration_order [''IsLeaf'', ''Keys''] (Data ?pg)"
      by (auto simp: iteration_order_def inner_root_node_def)
    show "\<forall>l\<in>set [''# DATABASE HEADER'', ''PAGESIZE=4096'', ''ENCODING=UTF-8'',
          ''VERSION=1.0'', ''PAGES=1'', [], ''# PAGE'']. \<not> Contains l (PageIDMarker (PageID (Header ?pg)))"
      by (simp add: Contains_def PageIDMarker_def)
  qed (simp_all add: inner_root_tree_def inner_root_node_def)
  then show ?thesis by (simp add: id)
qed

lemma readNode_inner_root:
  "readNode inner_root_tree (RootPageID inner_root_tree) = Inr inner_root_node"
proof -
  have "RootPageID inner_root_tree = 1" by (simp add: inner_root_tree_def)
  moreover have "Split ''m'' '','' = [''m'']" by (simp add: Split_no_sep)
  ultimately show ?thesis
    by (simp add: readNode_def ReadPage_inner_root)
      (simp add: inner_root_node_def ParseBool_def)
qed

lemma NewTextFileHandler_inner_root:
  "NewTextFileHandler (Some inner_root_file) = Inr (FileHandler inner_root_tree)"
proof -
  define L where "L = [''# DATABASE HEADER'', ''PAGESIZE=4096'', ''ENCODING=UTF-8'',
     ''VERSION=1.0'', ''PAGES=1'', [], ''# PAGE'', ''PageID: 1'', ''LSN: 0'', ''Type: Index'',
     ''IsLeaf: false'', ''Keys: m'']"
  have "\<forall>l\<in>set L. scannable l"
    by (simp add: L_def scannable_def dropCR_def MaxScanTokenSize_def)
  then have "Scanner (unlines L) = map Line L" by (rule Scanner_unlines)
  then have s: "Scanner inner_root_file = map Line L" by (simp only: inner_root_file_def L_def)
  show ?thesis
    by (simp add: NewTextFileHandler_def LoadMetadata_def s L_def inner_root_tree_def
      LoadMetadata_line_def HeaderSection_def HasPrefix_def PageSection_def SplitN_2
      TrimSpace_graphic_text graphic_def Sscanf_int_def Sscanf_uint_def is_digit_def digit_val_def
      DefaultPageSize_def)
qed

lemma NewBPlusTree_inner_root:
  "NewBPlusTree (FileHandler inner_root_tree) order = Inr inner_root_tree"
proof -
  have "ReadPage (FileHandler inner_root_tree) 1 = Inr (Page inner_root_node)"
    by (simp add: ReadPage_inner_root)
  then show ?thesis
    by (simp add: NewBPlusTree_def) (simp add: inner_root_node_def inner_root_tree_def)
qed

lemma SearchStrings_a: "SearchStrings [''a''] ''a'' = 0"
  by (simp add: SearchStrings_def Search.simps [of 0 "Suc 0"])

lemma duplicate_insert_view:
  "root_view (run (empty_tree index_order)
      [(Insert_op ''a'' 2 1, index_order), (Insert_op ''a'' 3 1, index_order)])
     = Inr (True, [''a'', ''a''], [''3:1'', ''2:1''], [])"
proof -
  let ?t = "run (empty_tree index_order) [(Insert_op ''a'' 2 1, index_order)]"
  have ls: "leaf_store ?t [''a''] [''2:1'']"
    using stored_a by (simp add: stored_def pointer_text_def)
  have e1: "entries MaxKeyLength [''a'']" "entries 100 [''2:1'']"
    by (simp_all add: entries_def graphic_def MaxKeyLength_def)
  have "\<exists>t'. BPlusTree_Insert ?t ''a'' 3 1 index_order = (None, t')
      \<and> leaf_store t' (take (SearchStrings [''a''] ''a'') [''a''] @ [''a'']
            @ drop (SearchStrings [''a''] ''a'') [''a''])
          (take (SearchStrings [''a''] ''a'') [''2:1''] @ [FormatUint 3 @ '':'' @ FormatUint 1]
            @ drop (SearchStrings [''a''] ''a'') [''2:1''])"
    using ls e1 by (rule Insert_leaf_store) (simp_all add: SearchStrings_a)
  then obtain t' where t': "BPlusTree_Insert ?t ''a'' 3 1 index_order = (None, t')"
    and ls': "leaf_store t' [''a'', ''a''] [''3:1'', ''2:1'']"
    by (auto simp: SearchStrings_a)
  have e2: "entries MaxKeyLength [''a'', ''a'']" "entries 100 [''3:1'', ''2:1'']"
    by (simp_all add: entries_def graphic_def MaxKeyLength_def)
  have "readNode t' (RootPageID t') = Inr (leaf_node [''a'', ''a''] [''3:1'', ''2:1''])"
    using ls' e2 by (rule readNode_leaf_store)
  then have "root_view t' = Inr (True, [''a'', ''a''], [''3:1'', ''2:1''], [])"
    by (simp add: root_view_def leaf_node_def)
  moreover have "run (empty_tree index_order)
      [(Insert_op ''a'' 2 1, index_order), (Insert_op ''a'' 3 1, index_order)] = t'"
    using t' by simp
  ultimately show ?thesis by simp
qed

lemma duplicate_insert_no_error:
  "fst (BPlusTree_Insert (run (empty_tree index_order) [(Insert_op ''a'' 2 1, index_order)])
      ''a'' 3 1 index_order) = None"
proof -
  let ?t = "run (empty_tree index_order) [(Insert_op ''a'' 2 1, index_order)]"
  have ls: "leaf_store ?t [''a''] [''2:1'']"
    using stored_a by (simp add: stored_def pointer_text_def)
  have e1: "entries MaxKeyLength [''a'']" "entries 100 [''2:1'']"
    by (simp_all add: entries_def graphic_def MaxKeyLength_def)
  have "\<exists>t'. BPlusTree_Insert ?t ''a'' 3 1 index_order = (None, t')
      \<and> leaf_store t' (take (SearchStrings [''a''] ''a'') [''a''] @ [''a'']
            @ drop (SearchStrings [''a''] ''a'') [''a''])
          (take (SearchStrings [''a''] ''a'') [''2:1''] @ [FormatUint 3 @ '':'' @ FormatUint 1]
            @ drop (SearchStrings [''a''] ''a'') [''2:1''])"
    using ls e1 by (rule Insert_leaf_store) (simp_all add: SearchStrings_a)
  then show ?thesis by auto
qed

lemma entries_after_stored:
  assumes "stored tree []" "inserts_new_keys tree ops"
  shows "stored (run tree ops) (entries_after (map fst ops))"
  using run_stored_new_keys [OF assms] by (simp add: entries_after_def)

lemma Scanner_lines:
  assumes "s = unlines ls" "\<forall>l\<in>set ls. scannable l"
  shows "Scanner s = map Line ls"
  unfolding assms(1) using assms(2) by (rule Scanner_unlines)

lemmas line_eval = scannable_def dropCR_def MaxScanTokenSize_def

lemmas metadata_eval = LoadMetadata_line_def HeaderSection_def HasPrefix_def PageSection_def
  SplitN_2 TrimSpace_graphic_text graphic_def Sscanf_int_def Sscanf_uint_def is_digit_def
  digit_val_def DefaultPageSize_def

lemma NewTextFileHandler_freed_page:
  "NewTextFileHandler (Some freed_page_file) = Inr freed_page_handler"
proof -
  have s: "Scanner freed_page_file = map Line [''# DATABASE HEADER'', ''PAGESIZE=4096'',
      ''ENCODING=UTF-8'', ''VERSION=1.0'', ''PAGES=5'', ''DEALLOCATED_PAGES=5'', []]"
    by (rule Scanner_lines, simp only: freed_page_file_def) (simp add: line_eval)
  have "Split ''5'' '','' = [''5'']" by (simp add: Split_no_sep)
  then show ?thesis
    by (simp add: NewTextFileHandler_def LoadMetadata_def s freed_page_handler_def metadata_eval)
qed

lemma AllocatePage_freed_page:
  "AllocatePage freed_page_handler
     = (\<lparr>Header = \<lparr>PageLSN = 0, PageID = 5, PageType = []\<rparr>, Data = Map.empty\<rparr>,
        freed_page_handler\<lparr>DeallocatedPages := []\<rparr>)"
  by (simp add: AllocatePage_def freed_page_handler_def)

lemma AllocatePage_FileContent: "FileContent (snd (AllocatePage self)) = FileContent self"
  by (simp add: AllocatePage_def split: list.split)

lemma NewTextFileHandler_page_ten:
  "NewTextFileHandler (Some page_ten_file) = Inr page_ten_handler"
proof -
  have s: "Scanner page_ten_file = map Line [''# DATABASE HEADER'', ''PAGESIZE=4096'',
     ''ENCODING=UTF-8'', ''VERSION=1.0'', ''PAGES=10'', [], ''# PAGE'', ''PageID: 10'', ''LSN: 0'',
     ''Type: Data'', ''EntryIndex: 1'', ''Entry-1: k|X'']"
    by (rule Scanner_lines, simp only: page_ten_file_def) (simp add: line_eval)
  show ?thesis
    by (simp add: NewTextFileHandler_def LoadMetadata_def s page_ten_handler_def metadata_eval)
qed

lemma FormatUint_10 [simp]: "FormatUint 10 = ''10''"
  by (simp add: FormatUint.simps char_of_def bit_Suc_0_iff)

lemmas page_eval = ReadPage_line_def Contains_def PageIDMarker_def HasPrefix_def PageSection_def
  SplitN_2 TrimSpace_graphic_text graphic_def ReadPage_field_def Sscanf_uint_def is_digit_def
  digit_val_def

lemma Scanner_page_ten:
  "Scanner (FileContent page_ten_handler) = map Line [''# DATABASE HEADER'', ''PAGESIZE=4096'',
     ''ENCODING=UTF-8'', ''VERSION=1.0'', ''PAGES=10'', [], ''# PAGE'', ''PageID: 10'', ''LSN: 0'',
     ''Type: Data'', ''EntryIndex: 1'', ''Entry-1: k|X'']"
  by (rule Scanner_lines, simp only: page_ten_file_def page_ten_handler_def
      TextFileHandler.simps) (simp add: line_eval)

lemma ReadPage_page_ten_1:
  "ReadPage page_ten_handler 1
     = Inr \<lparr>Header = \<lparr>PageLSN = 0, PageID = 1, PageType = ''Data''\<rparr>,
            Data = [''EntryIndex'' \<mapsto> ''1'', ''Entry-1'' \<mapsto> ''k|X'']\<rparr>"
  by (simp add: ReadPage_def Scanner_page_ten page_eval) (simp add: page_ten_handler_def)

lemma ReadPage_page_ten_10:
  "ReadPage page_ten_handler 10
     = Inr \<lparr>Header = \<lparr>PageLSN = 0, PageID = 10, PageType = ''Data''\<rparr>,
            Data = [''EntryIndex'' \<mapsto> ''1'', ''Entry-1'' \<mapsto> ''k|X'']\<rparr>"
  by (simp add: ReadPage_def Scanner_page_ten page_eval) (simp add: page_ten_handler_def)

lemma ReadPage_page_ten_2:
  "ReadPage page_ten_handler 2 = Inl PageNotFound"
  by (simp add: ReadPage_def Scanner_page_ten page_eval) (simp add: page_ten_handler_def)

lemma WritePage_page_five:
  "WritePage (freed_page_handler\<lparr>DeallocatedPages := []\<rparr>) page_five [''EntryIndex'', ''Entry-1'']
     = (None, freed_page_handler\<lparr>DeallocatedPages := [], FileContent := page_five_file\<rparr>)"
proof -
  have "Index freed_page_file ''PageID: 5'' = None"
    by (simp add: freed_page_file_def)
  then have "place_page freed_page_file ''PageID: 5'' new = Inr (freed_page_file @ NL @ new)" for new
    by (simp add: place_page_def)
  then show ?thesis
    by (simp add: WritePage_def PageIDMarker_def page_five_def freed_page_handler_def)
      (simp add: NewPageContent_def payload_line_def freed_page_file_def page_five_file_def
        PageSection_def NL_def)
qed

lemma NewTextFileHandler_page_five:
  "NewTextFileHandler (Some page_five_file)
     = Inr (freed_page_handler\<lparr>FileContent := page_five_file\<rparr>)"
proof -
  have s: "Scanner page_five_file = map Line [''# DATABASE HEADER'', ''PAGESIZE=4096'',
     ''ENCODING=UTF-8'', ''VERSION=1.0'', ''PAGES=5'', ''DEALLOCATED_PAGES=5'', [], [], ''# PAGE'',
     ''PageID: 5'', ''LSN: 0'', ''Type: Data'', ''EntryIndex: 1'', ''Entry-1: k|X'']"
    by (rule Scanner_lines, simp only: page_five_file_def) (simp add: line_eval)
  have "Split ''5'' '','' = [''5'']" by (simp add: Split_no_sep)
  then show ?thesis
    by (simp add: NewTextFileHandler_def LoadMetadata_def s freed_page_handler_def metadata_eval)
qed

lemma OpenDatabase_None: "OpenDatabase None index_order = Inr new_db"
  by (simp add: OpenDatabase_def NewTextFileHandler_None NewBPlusTree_fresh new_db_def)

lemma empty_root_file:
  "root_file [] [] index_order = unlines [''# DATABASE HEADER'', ''PAGESIZE=4096'',
     ''ENCODING=UTF-8'', ''VERSION=1.0'', ''PAGES=0'', [], [], ''# PAGE'', ''PageID: 1'', ''LSN: 0'',
     ''Type: Index'', ''IsLeaf: true'', ''Keys: '', ''Pointers: '']"
  by (simp add: root_file_def InitialContent_def HeaderSection_def NL_def NewPageContent_def
      root_page_def PageSection_def index_order_def payload_line_def)

lemma Find_new_db: "Find (Index_of new_db) key = Inr (0, 0)"
  using Find_stored [OF stored_empty_tree, of index_order key] by (simp add: new_db_def)

lemma WritePage_user_record:
  "WritePage \<lparr>FileContent = root_file [] [] index_order, PageSize = 4096, PageCount = 2,
              DeallocatedPages = []\<rparr>
     \<lparr>Header = \<lparr>PageLSN = 0, PageID = 2, PageType = ''Data''\<rparr>,
      Data = [''EntryIndex'' \<mapsto> ''1'', ''Entry-1'' \<mapsto> ''user:1|X'']\<rparr> record_order
   = (None, \<lparr>FileContent = user_file_1, PageSize = 4096, PageCount = 2, DeallocatedPages = []\<rparr>)"
proof -
  have "Index (root_file [] [] index_order) ''PageID: 2'' = None"
    by (simp add: empty_root_file)
  then have "place_page (root_file [] [] index_order) ''PageID: 2'' new
      = Inr (root_file [] [] index_order @ NL @ new)" for new
    by (simp add: place_page_def)
  then show ?thesis
    by (simp add: WritePage_def PageIDMarker_def)
      (simp add: NewPageContent_def payload_line_def empty_root_file user_file_1_def
        PageSection_def NL_def record_order_def)
qed

lemma Scanner_user_file_1:
  "Scanner user_file_1 = map Line [''# DATABASE HEADER'', ''PAGESIZE=4096'', ''ENCODING=UTF-8'',
     ''VERSION=1.0'', ''PAGES=0'', [], [], ''# PAGE'', ''PageID: 1'', ''LSN: 0'', ''Type: Index'',
     ''IsLeaf: true'', ''Keys: '', ''Pointers: '', [], ''# PAGE'', ''PageID: 2'', ''LSN: 0'',
     ''Type: Data'', ''EntryIndex: 1'', ''Entry-1: user:1|X'']"
  by (rule Scanner_lines, simp only: user_file_1_def) (simp add: line_eval)

lemma ReadPage_user_1_root:
  "ReadPage user_handler_1 1 = Inr (root_page [] [])"
  by (simp add: ReadPage_def user_handler_1_def Scanner_user_file_1 page_eval)
    (simp add: root_page_def)

lemma place_page_user_root:
  "place_page user_file_1 ''PageID: 1'' new
     = Inr (unlines [''# DATABASE HEADER'', ''PAGESIZE=4096'', ''ENCODING=UTF-8'',
          ''VERSION=1.0'', ''PAGES=0'', [], []] @ new
          @ unlines [''# PAGE'', ''PageID: 2'', ''LSN: 0'', ''Type: Data'', ''EntryIndex: 1'',
              ''Entry-1: user:1|X''])"
  by (simp add: place_page_def user_file_1_def PageSection_def)

lemma WritePage_user_root:
  "WritePage user_handler_1 (root_page ''user:1'' ''2:1'') index_order
     = (None, FileHandler (Index_of user_db))"
  by (simp add: WritePage_def PageIDMarker_def place_page_user_root root_page_def
      user_handler_1_def)
    (simp add: NewPageContent_def payload_line_def index_order_def user_db_def user_file_def
      PageSection_def NL_def)

lemma Insert_user_index:
  "BPlusTree_Insert \<lparr>RootPageID = 1, FileHandler = user_handler_1\<rparr> ''user:1'' 2 1 index_order
     = (None, Index_of user_db)"
proof -
  have r: "ReadPage user_handler_1 (Suc 0) = Inr (root_page [] [])"
    using ReadPage_user_1_root by simp
  have "readNode \<lparr>RootPageID = 1, FileHandler = user_handler_1\<rparr> 1 = Inr (leaf_node [] [])"
    by (simp add: readNode_def r) (simp add: root_page_def leaf_node_def ParseBool_def)
  moreover have "SearchStrings [] ''user:1'' = 0" by (simp add: SearchStrings_def)
  moreover have "(leaf_node [] [])\<lparr>Keys := [''user:1''], Pointers := [''2:1'']\<rparr>
      = leaf_node [''user:1''] [''2:1'']\<lparr>Page := root_page [] []\<rparr>"
    by (simp add: leaf_node_def)
  moreover have "writeNode \<lparr>RootPageID = 1, FileHandler = user_handler_1\<rparr>
      (leaf_node [''user:1''] [''2:1'']\<lparr>Page := root_page [] []\<rparr>) index_order
      = (None, Index_of user_db)"
    using WritePage_user_root
    by (simp add: writeNode_def leaf_node_def root_page_def FormatBool_def user_db_def)
  ultimately show ?thesis
    by (simp add: BPlusTree_Insert_def BTreeOrder_def) (simp add: leaf_node_def)
qed

lemma Insert_user:
  "Database_Insert new_db ''user:1'' ''X'' record_order index_order = (None, user_db)"
proof -
  have a: "AllocatePage (FileHandler (Index_of new_db))
      = (\<lparr>Header = \<lparr>PageLSN = 0, PageID = 2, PageType = []\<rparr>, Data = Map.empty\<rparr>,
         \<lparr>FileContent = root_file [] [] index_order, PageSize = 4096, PageCount = 2,
           DeallocatedPages = []\<rparr>)"
    by (simp add: AllocatePage_def new_db_def empty_tree_def)
  have r: "AddRecord \<lparr>Header = \<lparr>PageLSN = 0, PageID = 2, PageType = ''Data''\<rparr>, Data = Map.empty\<rparr>
        \<lparr>EntryIndex = 0, Fields = [''user:1'', ''X'']\<rparr>
      = Inr (1, \<lparr>Header = \<lparr>PageLSN = 0, PageID = 2, PageType = ''Data''\<rparr>,
                 Data = [''EntryIndex'' \<mapsto> ''1'', ''Entry-1'' \<mapsto> ''user:1|X'']\<rparr>,
             \<lparr>EntryIndex = 1, Fields = [''user:1'', ''X'']\<rparr>)"
    by (simp add: AddRecord_def)
  have t: "(Index_of new_db)\<lparr>FileHandler := user_handler_1\<rparr>
      = \<lparr>RootPageID = 1, FileHandler = user_handler_1\<rparr>"
    by (simp add: new_db_def empty_tree_def)
  have i: "BPlusTree_Insert \<lparr>RootPageID = Suc 0, FileHandler = user_handler_1\<rparr> ''user:1'' 2
      (Suc 0) index_order = (None, Index_of user_db)"
    using Insert_user_index by simp
  have u: "\<lparr>Index_of = Index_of user_db\<rparr> = user_db" by simp
  show ?thesis
    unfolding Database_Insert_def Find_new_db a
    by (simp add: r WritePage_user_record [folded user_handler_1_def] t i u)
qed

lemma Scanner_user_file:
  "Scanner user_file = map Line [''# DATABASE HEADER'', ''PAGESIZE=4096'', ''ENCODING=UTF-8'',
     ''VERSION=1.0'', ''PAGES=0'', [], [], ''# PAGE'', ''PageID: 1'', ''LSN: 0'', ''Type: Index'',
     ''IsLeaf: true'', ''Keys: user:1'', ''Pointers: 2:1'', ''# PAGE'', ''PageID: 2'', ''LSN: 0'',
     ''Type: Data'', ''EntryIndex: 1'', ''Entry-1: user:1|X'']"
  by (rule Scanner_lines, simp only: user_file_def) (simp add: line_eval)

lemma ReadPage_user_db_1:
  "ReadPage (FileHandler (Index_of user_db)) (Suc 0) = Inr (root_page ''user:1'' ''2:1'')"
  by (simp add: ReadPage_def user_db_def Scanner_user_file page_eval)
    (simp add: root_page_def)

lemma ReadPage_user_db_2:
  "ReadPage (FileHandler (Index_of user_db)) 2
     = Inr \<lparr>Header = \<lparr>PageLSN = 0, PageID = 2, PageType = ''Data''\<rparr>,
            Data = [''EntryIndex'' \<mapsto> ''1'', ''Entry-1'' \<mapsto> ''user:1|X'']\<rparr>"
  by (simp add: ReadPage_def user_db_def Scanner_user_file page_eval)

lemma Find_user: "Find (Index_of user_db) ''user:1'' = Inr (2, 1)"
proof -
  have "RootPageID (Index_of user_db) = Suc 0" by (simp add: user_db_def)
  then have "readNode (Index_of user_db) (RootPageID (Index_of user_db))
      = Inr (leaf_node [''user:1''] [''2:1''])"
    by (simp add: readNode_def ReadPage_user_db_1)
      (simp add: root_page_def leaf_node_def ParseBool_def Split_no_sep)
  moreover have "Split ''2:1'' '':'' = [''2'', ''1'']"
    using Split_cons [of "CHR '':''" "''2''" "''1''"] by (simp add: Split_no_sep)
  moreover have "ParseUint ''2'' 32 = 2" "ParseUint ''1'' 32 = 1"
    using ParseUint_FormatUint [of 2] ParseUint_FormatUint [of 1] by simp_all
  ultimately show ?thesis
    by (simp add: Find_def leaf_node_def)
qed

lemma Get_user:
  "Get user_db ''user:1'' = Inr (Some \<lparr>EntryIndex = 1, Fields = [''user:1'', ''X'']\<rparr>)"
proof -
  have "Split ''user:1|X'' ''|'' = [''user:1'', ''X'']"
    using Split_cons [of "CHR ''|''" "''user:1''" "''X''"] by (simp add: Split_no_sep)
  then show ?thesis
    by (simp add: Get_def Find_user ReadPage_user_db_2 GetRecord_def)
qed

lemma split_texts:
  "Split ''a,b'' '','' = [''a'', ''b'']" "Split ''a,b,c'' '','' = [''a'', ''b'', ''c'']"
  "Split ''2:1,3:1'' '','' = [''2:1'', ''3:1'']"
  "Split ''2:1,3:1,4:1'' '','' = [''2:1'', ''3:1'', ''4:1'']"
  "Split ''a'' '','' = [''a'']" "Split ''2:1'' '','' = [''2:1'']"
  using Split_cons [of "CHR '',''" "''a''" "''b''"] Split_cons [of "CHR '',''" "''a''" "''b,c''"]
    Split_cons [of "CHR '',''" "''b''" "''c''"] Split_cons [of "CHR '',''" "''2:1''" "''3:1''"]
    Split_cons [of "CHR '',''" "''2:1''" "''3:1,4:1''"] Split_cons [of "CHR '',''" "''3:1''" "''4:1''"]
  by (simp_all add: Split_no_sep)

lemma search_texts:
  "SearchStrings [] k = 0" "SearchStrings [''a''] ''b'' = 1"
  "SearchStrings [''a'', ''b''] ''c'' = 2"
  by (simp_all add: SearchStrings_def Search.simps [of 0 "Suc 0"]
      Search.simps [of 0 "Suc (Suc 0)"] Search.simps [of "Suc (Suc 0)" "Suc (Suc 0)"])

lemma file_new_db: "FileContent (FileHandler (Index_of new_db)) = unlines [''# DATABASE HEADER'', ''PAGESIZE=4096'', ''ENCODING=UTF-8'', ''VERSION=1.0'',
     ''PAGES=0'', [], [], ''# PAGE'', ''PageID: 1'', ''LSN: 0'', ''Type: Index'',
     ''IsLeaf: true'', ''Keys: '', ''Pointers: '']"
  by (simp add: new_db_def empty_tree_def empty_root_file)

lemma Scanner_prev_0:
  "Scanner (FileContent (FileHandler (Index_of new_db))) = map Line [''# DATABASE HEADER'', ''PAGESIZE=4096'', ''ENCODING=UTF-8'', ''VERSION=1.0'',
     ''PAGES=0'', [], [], ''# PAGE'', ''PageID: 1'', ''LSN: 0'', ''Type: Index'',
     ''IsLeaf: true'', ''Keys: '', ''Pointers: '']"
  by (rule Scanner_lines, simp only: file_new_db) (simp add: line_eval)

lemma ReadPage_prev_0:
  "ReadPage (FileHandler (Index_of new_db)) (Suc 0) = Inr (root_page [] [])"
  using Scanner_prev_0
  by (simp add: ReadPage_def new_db_def empty_tree_def page_eval) (simp add: root_page_def)

lemma readNode_prev_0:
  "readNode (Index_of new_db) (RootPageID (Index_of new_db)) = Inr (leaf_node [] [])"
proof -
  have "RootPageID (Index_of new_db) = Suc 0" by (simp add: new_db_def empty_tree_def)
  then show ?thesis
    by (simp add: readNode_def ReadPage_prev_0)
      (simp add: root_page_def leaf_node_def ParseBool_def split_texts)
qed

lemma Find_prev_0: "Find (Index_of new_db) ''a'' = Inr (0, 0)"
  by (simp add: Find_def readNode_prev_0 leaf_node_def)

lemma WritePage_data_0:
  "WritePage ((FileHandler (Index_of new_db))\<lparr>PageCount := 2\<rparr>)
     \<lparr>Header = \<lparr>PageLSN = 0, PageID = 2, PageType = ''Data''\<rparr>,
      Data = [''EntryIndex'' \<mapsto> ''1'', ''Entry-1'' \<mapsto> ''a|A'']\<rparr> record_order
   = (None, \<lparr>FileContent = file_mid_0, PageSize = 4096, PageCount = 2, DeallocatedPages = []\<rparr>)"
proof -
  have "Index (FileContent (FileHandler (Index_of new_db))) ''PageID: 2'' = None"
    by (simp add: file_new_db)
  then have "place_page (FileContent (FileHandler (Index_of new_db))) ''PageID: 2'' new
      = Inr (FileContent (FileHandler (Index_of new_db)) @ NL @ new)" for new
    by (simp add: place_page_def)
  then show ?thesis
    by (simp add: WritePage_def PageIDMarker_def new_db_def empty_tree_def)
      (simp add: NewPageContent_def payload_line_def empty_root_file file_mid_0_def
        PageSection_def NL_def record_order_def)
qed

lemma Scanner_mid_0:
  "Scanner file_mid_0 = map Line [''# DATABASE HEADER'', ''PAGESIZE=4096'', ''ENCODING=UTF-8'', ''VERSION=1.0'',
     ''PAGES=0'', [], [], ''# PAGE'', ''PageID: 1'', ''LSN: 0'', ''Type: Index'',
     ''IsLeaf: true'', ''Keys: '', ''Pointers: '', [], ''# PAGE'', ''PageID: 2'', ''LSN: 0'',
     ''Type: Data'', ''EntryIndex: 1'', ''Entry-1: a|A'']"
  by (rule Scanner_lines, simp only: file_mid_0_def) (simp add: line_eval)

lemma ReadPage_mid_0:
  "ReadPage \<lparr>FileContent = file_mid_0, PageSize = 4096, PageCount = 2, DeallocatedPages = []\<rparr> (Suc 0) = Inr (root_page [] [])"
  by (simp add: ReadPage_def Scanner_mid_0 page_eval) (simp add: root_page_def)

lemma readNode_mid_0:
  "readNode \<lparr>RootPageID = Suc 0, FileHandler = \<lparr>FileContent = file_mid_0, PageSize = 4096, PageCount = 2, DeallocatedPages = []\<rparr>\<rparr> (Suc 0) = Inr (leaf_node [] [])"
  by (simp add: readNode_def ReadPage_mid_0)
    (simp add: root_page_def leaf_node_def ParseBool_def split_texts)

lemma place_page_root_0:
  "place_page file_mid_0 ''PageID: 1'' new
     = Inr (unlines [''# DATABASE HEADER'', ''PAGESIZE=4096'', ''ENCODING=UTF-8'', ''VERSION=1.0'',
          ''PAGES=0'', [], []] @ new
          @ unlines [''# PAGE'', ''PageID: 2'', ''LSN: 0'', ''Type: Data'', ''EntryIndex: 1'',
          ''Entry-1: a|A''])"
  by (simp add: place_page_def file_mid_0_def PageSection_def)

lemma WritePage_root_0:
  "WritePage \<lparr>FileContent = file_mid_0, PageSize = 4096, PageCount = 2, DeallocatedPages = []\<rparr> (root_page ''a'' ''2:1'') index_order
     = (None, FileHandler (Index_of db_a))"
  by (simp add: WritePage_def PageIDMarker_def place_page_root_0 root_page_def)
    (simp add: NewPageContent_def payload_line_def index_order_def db_a_def file_a_def
      PageSection_def NL_def)

lemma Insert_index_0:
  "BPlusTree_Insert \<lparr>RootPageID = Suc 0, FileHandler = \<lparr>FileContent = file_mid_0, PageSize = 4096, PageCount = 2, DeallocatedPages = []\<rparr>\<rparr> ''a'' 2 (Suc 0) index_order
     = (None, Index_of db_a)"
proof -
  have "SearchStrings [] ''a'' = 0" by (simp add: search_texts)
  moreover have "writeNode \<lparr>RootPageID = Suc 0, FileHandler = \<lparr>FileContent = file_mid_0, PageSize = 4096, PageCount = 2, DeallocatedPages = []\<rparr>\<rparr>
      (leaf_node [''a''] [''2:1'']\<lparr>Page := root_page [] []\<rparr>) index_order
      = (None, Index_of db_a)"
    using WritePage_root_0
    by (simp add: writeNode_def leaf_node_def root_page_def FormatBool_def db_a_def)
  ultimately show ?thesis
    by (simp add: BPlusTree_Insert_def BTreeOrder_def readNode_mid_0)
      (simp add: leaf_node_def)
qed

lemma Insert_step_0:
  "Database_Insert new_db ''a'' ''A'' record_order index_order = (None, db_a)"
proof -
  have a: "AllocatePage (FileHandler (Index_of new_db))
      = (\<lparr>Header = \<lparr>PageLSN = 0, PageID = 2, PageType = []\<rparr>, Data = Map.empty\<rparr>,
         (FileHandler (Index_of new_db))\<lparr>PageCount := 2\<rparr>)"
    by (simp add: AllocatePage_def new_db_def empty_tree_def)
  have r: "AddRecord \<lparr>Header = \<lparr>PageLSN = 0, PageID = 2, PageType = ''Data''\<rparr>, Data = Map.empty\<rparr>
        \<lparr>EntryIndex = 0, Fields = [''a'', ''A'']\<rparr>
      = Inr (1, \<lparr>Header = \<lparr>PageLSN = 0, PageID = 2, PageType = ''Data''\<rparr>,
      Data = [''EntryIndex'' \<mapsto> ''1'', ''Entry-1'' \<mapsto> ''a|A'']\<rparr>,
             \<lparr>EntryIndex = 1, Fields = [''a'', ''A'']\<rparr>)"
    by (simp add: AddRecord_def)
  have t: "(Index_of new_db)\<lparr>FileHandler := \<lparr>FileContent = file_mid_0, PageSize = 4096, PageCount = 2, DeallocatedPages = []\<rparr>\<rparr>
      = \<lparr>RootPageID = Suc 0, FileHandler = \<lparr>FileContent = file_mid_0, PageSize = 4096, PageCount = 2, DeallocatedPages = []\<rparr>\<rparr>"
    by (simp add: new_db_def empty_tree_def)
  have u: "\<lparr>Index_of = Index_of db_a\<rparr> = db_a" by simp
  show ?thesis
    unfolding Database_Insert_def Find_prev_0 a
    by (simp add: r WritePage_data_0 t Insert_index_0 u)
qed

lemma Scanner_prev_1:
  "Scanner (file_a) = map Line [''# DATABASE HEADER'', ''PAGESIZE=4096'', ''ENCODING=UTF-8'', ''VERSION=1.0'',
     ''PAGES=0'', [], [], ''# PAGE'', ''PageID: 1'', ''LSN: 0'', ''Type: Index'',
     ''IsLeaf: true'', ''Keys: a'', ''Pointers: 2:1'', ''# PAGE'', ''PageID: 2'', ''LSN: 0'',
     ''Type: Data'', ''EntryIndex: 1'', ''Entry-1: a|A'']"
  by (rule Scanner_lines, simp only: file_a_def) (simp add: line_eval)

lemma ReadPage_prev_1:
  "ReadPage (FileHandler (Index_of db_a)) (Suc 0) = Inr (root_page ''a'' ''2:1'')"
  using Scanner_prev_1
  by (simp add: ReadPage_def db_a_def page_eval) (simp add: root_page_def)

lemma readNode_prev_1:
  "readNode (Index_of db_a) (RootPageID (Index_of db_a)) = Inr (leaf_node [''a''] [''2:1''])"
proof -
  have "RootPageID (Index_of db_a) = Suc 0" by (simp add: db_a_def)
  then show ?thesis
    by (simp add: readNode_def ReadPage_prev_1)
      (simp add: root_page_def leaf_node_def ParseBool_def split_texts)
qed

lemma Find_prev_1: "Find (Index_of db_a) ''b'' = Inr (0, 0)"
  by (simp add: Find_def readNode_prev_1 leaf_node_def)

lemma WritePage_data_1:
  "WritePage ((FileHandler (Index_of db_a))\<lparr>PageCount := 3\<rparr>)
     \<lparr>Header = \<lparr>PageLSN = 0, PageID = 3, PageType = ''Data''\<rparr>,
      Data = [''EntryIndex'' \<mapsto> ''1'', ''Entry-1'' \<mapsto> ''b|B'']\<rparr> record_order
   = (None, \<lparr>FileContent = file_mid_1, PageSize = 4096, PageCount = 3, DeallocatedPages = []\<rparr>)"
proof -
  have "Index (file_a) ''PageID: 3'' = None"
    by (simp add: file_a_def)
  then have "place_page (file_a) ''PageID: 3'' new
      = Inr (file_a @ NL @ new)" for new
    by (simp add: place_page_def)
  then show ?thesis
    by (simp add: WritePage_def PageIDMarker_def db_a_def)
      (simp add: NewPageContent_def payload_line_def file_a_def file_mid_1_def
        PageSection_def NL_def record_order_def)
qed

lemma Scanner_mid_1:
  "Scanner file_mid_1 = map Line [''# DATABASE HEADER'', ''PAGESIZE=4096'', ''ENCODING=UTF-8'', ''VERSION=1.0'',
     ''PAGES=0'', [], [], ''# PAGE'', ''PageID: 1'', ''LSN: 0'', ''Type: Index'',
     ''IsLeaf: true'', ''Keys: a'', ''Pointers: 2:1'', ''# PAGE'', ''PageID: 2'', ''LSN: 0'',
     ''Type: Data'', ''EntryIndex: 1'', ''Entry-1: a|A'', [], ''# PAGE'', ''PageID: 3'',
     ''LSN: 0'', ''Type: Data'', ''EntryIndex: 1'', ''Entry-1: b|B'']"
  by (rule Scanner_lines, simp only: file_mid_1_def) (simp add: line_eval)

lemma ReadPage_mid_1:
  "ReadPage \<lparr>FileContent = file_mid_1, PageSize = 4096, PageCount = 3, DeallocatedPages = []\<rparr> (Suc 0) = Inr (root_page ''a'' ''2:1'')"
  by (simp add: ReadPage_def Scanner_mid_1 page_eval) (simp add: root_page_def)

lemma readNode_mid_1:
  "readNode \<lparr>RootPageID = Suc 0, FileHandler = \<lparr>FileContent = file_mid_1, PageSize = 4096, PageCount = 3, DeallocatedPages = []\<rparr>\<rparr> (Suc 0) = Inr (leaf_node [''a''] [''2:1''])"
  by (simp add: readNode_def ReadPage_mid_1)
    (simp add: root_page_def leaf_node_def ParseBool_def split_texts)

lemma place_page_root_1:
  "place_page file_mid_1 ''PageID: 1'' new
     = Inr (unlines [''# DATABASE HEADER'', ''PAGESIZE=4096'', ''ENCODING=UTF-8'', ''VERSION=1.0'',
          ''PAGES=0'', [], []] @ new
          @ unlines [''# PAGE'', ''PageID: 2'', ''LSN: 0'', ''Type: Data'', ''EntryIndex: 1'',
          ''Entry-1: a|A'', [], ''# PAGE'', ''PageID: 3'', ''LSN: 0'', ''Type: Data'',
          ''EntryIndex: 1'', ''Entry-1: b|B''])"
  by (simp add: place_page_def file_mid_1_def PageSection_def)

lemma WritePage_root_1:
  "WritePage \<lparr>FileContent = file_mid_1, PageSize = 4096, PageCount = 3, DeallocatedPages = []\<rparr> (root_page ''a,b'' ''2:1,3:1'') index_order
     = (None, FileHandler (Index_of db_ab))"
  by (simp add: WritePage_def PageIDMarker_def place_page_root_1 root_page_def)
    (simp add: NewPageContent_def payload_line_def index_order_def db_ab_def file_ab_def
      PageSection_def NL_def)

lemma Insert_index_1:
  "BPlusTree_Insert \<lparr>RootPageID = Suc 0, FileHandler = \<lparr>FileContent = file_mid_1, PageSize = 4096, PageCount = 3, DeallocatedPages = []\<rparr>\<rparr> ''b'' 3 (Suc 0) index_order
     = (None, Index_of db_ab)"
proof -
  have "SearchStrings [''a''] ''b'' = 1" by (simp add: search_texts)
  moreover have "writeNode \<lparr>RootPageID = Suc 0, FileHandler = \<lparr>FileContent = file_mid_1, PageSize = 4096, PageCount = 3, DeallocatedPages = []\<rparr>\<rparr>
      (leaf_node [''a'', ''b''] [''2:1'', ''3:1'']\<lparr>Page := root_page ''a'' ''2:1''\<rparr>) index_order
      = (None, Index_of db_ab)"
    using WritePage_root_1
    by (simp add: writeNode_def leaf_node_def root_page_def FormatBool_def db_ab_def)
  ultimately show ?thesis
    by (simp add: BPlusTree_Insert_def BTreeOrder_def readNode_mid_1)
      (simp add: leaf_node_def)
qed

lemma Insert_step_1:
  "Database_Insert db_a ''b'' ''B'' record_order index_order = (None, db_ab)"
proof -
  have a: "AllocatePage (FileHandler (Index_of db_a))
      = (\<lparr>Header = \<lparr>PageLSN = 0, PageID = 3, PageType = []\<rparr>, Data = Map.empty\<rparr>,
         (FileHandler (Index_of db_a))\<lparr>PageCount := 3\<rparr>)"
    by (simp add: AllocatePage_def db_a_def)
  have r: "AddRecord \<lparr>Header = \<lparr>PageLSN = 0, PageID = 3, PageType = ''Data''\<rparr>, Data = Map.empty\<rparr>
        \<lparr>EntryIndex = 0, Fields = [''b'', ''B'']\<rparr>
      = Inr (1, \<lparr>Header = \<lparr>PageLSN = 0, PageID = 3, PageType = ''Data''\<rparr>,
      Data = [''EntryIndex'' \<mapsto> ''1'', ''Entry-1'' \<mapsto> ''b|B'']\<rparr>,
             \<lparr>EntryIndex = 1, Fields = [''b'', ''B'']\<rparr>)"
    by (simp add: AddRecord_def)
  have t: "(Index_of db_a)\<lparr>FileHandler := \<lparr>FileContent = file_mid_1, PageSize = 4096, PageCount = 3, DeallocatedPages = []\<rparr>\<rparr>
      = \<lparr>RootPageID = Suc 0, FileHandler = \<lparr>FileContent = file_mid_1, PageSize = 4096, PageCount = 3, DeallocatedPages = []\<rparr>\<rparr>"
    by (simp add: db_a_def)
  have u: "\<lparr>Index_of = Index_of db_ab\<rparr> = db_ab" by simp
  show ?thesis
    unfolding Database_Insert_def Find_prev_1 a
    by (simp add: r WritePage_data_1 t Insert_index_1 u)
qed

lemma Scanner_prev_2:
  "Scanner (file_ab) = map Line [''# DATABASE HEADER'', ''PAGESIZE=4096'', ''ENCODING=UTF-8'', ''VERSION=1.0'',
     ''PAGES=0'', [], [], ''# PAGE'', ''PageID: 1'', ''LSN: 0'', ''Type: Index'',
     ''IsLeaf: true'', ''Keys: a,b'', ''Pointers: 2:1,3:1'', ''# PAGE'', ''PageID: 2'',
     ''LSN: 0'', ''Type: Data'', ''EntryIndex: 1'', ''Entry-1: a|A'', [], ''# PAGE'',
     ''PageID: 3'', ''LSN: 0'', ''Type: Data'', ''EntryIndex: 1'', ''Entry-1: b|B'']"
  by (rule Scanner_lines, simp only: file_ab_def) (simp add: line_eval)

lemma ReadPage_prev_2:
  "ReadPage (FileHandler (Index_of db_ab)) (Suc 0) = Inr (root_page ''a,b'' ''2:1,3:1'')"
  using Scanner_prev_2
  by (simp add: ReadPage_def db_ab_def page_eval) (simp add: root_page_def)

lemma readNode_prev_2:
  "readNode (Index_of db_ab) (RootPageID (Index_of db_ab)) = Inr (leaf_node [''a'', ''b''] [''2:1'', ''3:1''])"
proof -
  have "RootPageID (Index_of db_ab) = Suc 0" by (simp add: db_ab_def)
  then show ?thesis
    by (simp add: readNode_def ReadPage_prev_2)
      (simp add: root_page_def leaf_node_def ParseBool_def split_texts)
qed

lemma Find_prev_2: "Find (Index_of db_ab) ''c'' = Inr (0, 0)"
  by (simp add: Find_def readNode_prev_2 leaf_node_def)

lemma WritePage_data_2:
  "WritePage ((FileHandler (Index_of db_ab))\<lparr>PageCount := 4\<rparr>)
     \<lparr>Header = \<lparr>PageLSN = 0, PageID = 4, PageType = ''Data''\<rparr>,
      Data = [''EntryIndex'' \<mapsto> ''1'', ''Entry-1'' \<mapsto> ''c|C'']\<rparr> record_order
   = (None, \<lparr>FileContent = file_mid_2, PageSize = 4096, PageCount = 4, DeallocatedPages = []\<rparr>)"
proof -
  have "Index (file_ab) ''PageID: 4'' = None"
    by (simp add: file_ab_def)
  then have "place_page (file_ab) ''PageID: 4'' new
      = Inr (file_ab @ NL @ new)" for new
    by (simp add: place_page_def)
  then show ?thesis
    by (simp add: WritePage_def PageIDMarker_def db_ab_def)
      (simp add: NewPageContent_def payload_line_def file_ab_def file_mid_2_def
        PageSection_def NL_def record_order_def)
qed

lemma Scanner_mid_2:
  "Scanner file_mid_2 = map Line [''# DATABASE HEADER'', ''PAGESIZE=4096'', ''ENCODING=UTF-8'', ''VERSION=1.0'',
     ''PAGES=0'', [], [], ''# PAGE'', ''PageID: 1'', ''LSN: 0'', ''Type: Index'',
     ''IsLeaf: true'', ''Keys: a,b'', ''Pointers: 2:1,3:1'', ''# PAGE'', ''PageID: 2'',
     ''LSN: 0'', ''Type: Data'', ''EntryIndex: 1'', ''Entry-1: a|A'', [], ''# PAGE'',
     ''PageID: 3'', ''LSN: 0'', ''Type: Data'', ''EntryIndex: 1'', ''Entry-1: b|B'', [],
     ''# PAGE'', ''PageID: 4'', ''LSN: 0'', ''Type: Data'', ''EntryIndex: 1'', ''Entry-1: c|C'']"
  by (rule Scanner_lines, simp only: file_mid_2_def) (simp add: line_eval)

lemma ReadPage_mid_2:
  "ReadPage \<lparr>FileContent = file_mid_2, PageSize = 4096, PageCount = 4, DeallocatedPages = []\<rparr> (Suc 0) = Inr (root_page ''a,b'' ''2:1,3:1'')"
  by (simp add: ReadPage_def Scanner_mid_2 page_eval) (simp add: root_page_def)

lemma readNode_mid_2:
  "readNode \<lparr>RootPageID = Suc 0, FileHandler = \<lparr>FileContent = file_mid_2, PageSize = 4096, PageCount = 4, DeallocatedPages = []\<rparr>\<rparr> (Suc 0) = Inr (leaf_node [''a'', ''b''] [''2:1'', ''3:1''])"
  by (simp add: readNode_def ReadPage_mid_2)
    (simp add: root_page_def leaf_node_def ParseBool_def split_texts)

lemma place_page_root_2:
  "place_page file_mid_2 ''PageID: 1'' new
     = Inr (unlines [''# DATABASE HEADER'', ''PAGESIZE=4096'', ''ENCODING=UTF-8'', ''VERSION=1.0'',
          ''PAGES=0'', [], []] @ new
          @ unlines [''# PAGE'', ''PageID: 2'', ''LSN: 0'', ''Type: Data'', ''EntryIndex: 1'',
          ''Entry-1: a|A'', [], ''# PAGE'', ''PageID: 3'', ''LSN: 0'', ''Type: Data'',
          ''EntryIndex: 1'', ''Entry-1: b|B'', [], ''# PAGE'', ''PageID: 4'', ''LSN: 0'',
          ''Type: Data'', ''EntryIndex: 1'', ''Entry-1: c|C''])"
  by (simp add: place_page_def file_mid_2_def PageSection_def)

lemma WritePage_root_2:
  "WritePage \<lparr>FileContent = file_mid_2, PageSize = 4096, PageCount = 4, DeallocatedPages = []\<rparr> (root_page ''a,b,c'' ''2:1,3:1,4:1'') index_order
     = (None, FileHandler (Index_of db_abc))"
  by (simp add: WritePage_def PageIDMarker_def place_page_root_2 root_page_def)
    (simp add: NewPageContent_def payload_line_def index_order_def db_abc_def file_abc_def
      PageSection_def NL_def)

lemma Insert_index_2:
  "BPlusTree_Insert \<lparr>RootPageID = Suc 0, FileHandler = \<lparr>FileContent = file_mid_2, PageSize = 4096, PageCount = 4, DeallocatedPages = []\<rparr>\<rparr> ''c'' 4 (Suc 0) index_order
     = (None, Index_of db_abc)"
proof -
  have "SearchStrings [''a'', ''b''] ''c'' = 2" by (simp add: search_texts)
  moreover have "writeNode \<lparr>RootPageID = Suc 0, FileHandler = \<lparr>FileContent = file_mid_2, PageSize = 4096, PageCount = 4, DeallocatedPages = []\<rparr>\<rparr>
      (leaf_node [''a'', ''b'', ''c''] [''2:1'', ''3:1'', ''4:1'']\<lparr>Page := root_page ''a,b'' ''2:1,3:1''\<rparr>) index_order
      = (None, Index_of db_abc)"
    using WritePage_root_2
    by (simp add: writeNode_def leaf_node_def root_page_def FormatBool_def db_abc_def)
  ultimately show ?thesis
    by (simp add: BPlusTree_Insert_def BTreeOrder_def readNode_mid_2)
      (simp add: leaf_node_def)
qed

lemma Insert_step_2:
  "Database_Insert db_ab ''c'' ''C'' record_order index_order = (None, db_abc)"
proof -
  have a: "AllocatePage (FileHandler (Index_of db_ab))
      = (\<lparr>Header = \<lparr>PageLSN = 0, PageID = 4, PageType = []\<rparr>, Data = Map.empty\<rparr>,
         (FileHandler (Index_of db_ab))\<lparr>PageCount := 4\<rparr>)"
    by (simp add: AllocatePage_def db_ab_def)
  have r: "AddRecord \<lparr>Header = \<lparr>PageLSN = 0, PageID = 4, PageType = ''Data''\<rparr>, Data = Map.empty\<rparr>
        \<lparr>EntryIndex = 0, Fields = [''c'', ''C'']\<rparr>
      = Inr (1, \<lparr>Header = \<lparr>PageLSN = 0, PageID = 4, PageType = ''Data''\<rparr>,
      Data = [''EntryIndex'' \<mapsto> ''1'', ''Entry-1'' \<mapsto> ''c|C'']\<rparr>,
             \<lparr>EntryIndex = 1, Fields = [''c'', ''C'']\<rparr>)"
    by (simp add: AddRecord_def)
  have t: "(Index_of db_ab)\<lparr>FileHandler := \<lparr>FileContent = file_mid_2, PageSize = 4096, PageCount = 4, DeallocatedPages = []\<rparr>\<rparr>
      = \<lparr>RootPageID = Suc 0, FileHandler = \<lparr>FileContent = file_mid_2, PageSize = 4096, PageCount = 4, DeallocatedPages = []\<rparr>\<rparr>"
    by (simp add: db_ab_def)
  have u: "\<lparr>Index_of = Index_of db_abc\<rparr> = db_abc" by simp
  show ?thesis
    unfolding Database_Insert_def Find_prev_2 a
    by (simp add: r WritePage_data_2 t Insert_index_2 u)
qed

lemma Scanner_prev_3:
  "Scanner (file_abc) = map Line [''# DATABASE HEADER'', ''PAGESIZE=4096'', ''ENCODING=UTF-8'', ''VERSION=1.0'',
     ''PAGES=0'', [], [], ''# PAGE'', ''PageID: 1'', ''LSN: 0'', ''Type: Index'',
     ''IsLeaf: true'', ''Keys: a,b,c'', ''Pointers: 2:1,3:1,4:1'', ''# PAGE'', ''PageID: 2'',
     ''LSN: 0'', ''Type: Data'', ''EntryIndex: 1'', ''Entry-1: a|A'', [], ''# PAGE'',
     ''PageID: 3'', ''LSN: 0'', ''Type: Data'', ''EntryIndex: 1'', ''Entry-1: b|B'', [],
     ''# PAGE'', ''PageID: 4'', ''LSN: 0'', ''Type: Data'', ''EntryIndex: 1'', ''Entry-1: c|C'']"
  by (rule Scanner_lines, simp only: file_abc_def) (simp add: line_eval)

lemma ReadPage_prev_3:
  "ReadPage (FileHandler (Index_of db_abc)) (Suc 0) = Inr (root_page ''a,b,c'' ''2:1,3:1,4:1'')"
  using Scanner_prev_3
  by (simp add: ReadPage_def db_abc_def page_eval) (simp add: root_page_def)

lemma readNode_prev_3:
  "readNode (Index_of db_abc) (RootPageID (Index_of db_abc)) = Inr (leaf_node [''a'', ''b'', ''c''] [''2:1'', ''3:1'', ''4:1''])"
proof -
  have "RootPageID (Index_of db_abc) = Suc 0" by (simp add: db_abc_def)
  then show ?thesis
    by (simp add: readNode_def ReadPage_prev_3)
      (simp add: root_page_def leaf_node_def ParseBool_def split_texts)
qed

lemma Find_prev_3: "Find (Index_of db_abc) ''user:1'' = Inr (0, 0)"
  by (simp add: Find_def readNode_prev_3 leaf_node_def)

lemma WritePage_data_3:
  "WritePage ((FileHandler (Index_of db_abc))\<lparr>PageCount := 5\<rparr>)
     \<lparr>Header = \<lparr>PageLSN = 0, PageID = 5, PageType = ''Data''\<rparr>,
      Data = [''EntryIndex'' \<mapsto> ''1'', ''Entry-1'' \<mapsto> ''user:1|X'']\<rparr> record_order
   = (None, \<lparr>FileContent = file_mid_3, PageSize = 4096, PageCount = 5, DeallocatedPages = []\<rparr>)"
proof -
  have "Index (file_abc) ''PageID: 5'' = None"
    by (simp add: file_abc_def)
  then have "place_page (file_abc) ''PageID: 5'' new
      = Inr (file_abc @ NL @ new)" for new
    by (simp add: place_page_def)
  then show ?thesis
    by (simp add: WritePage_def PageIDMarker_def db_abc_def)
      (simp add: NewPageContent_def payload_line_def file_abc_def file_mid_3_def
        PageSection_def NL_def record_order_def)
qed

lemma Scanner_mid_3:
  "Scanner file_mid_3 = map Line [''# DATABASE HEADER'', ''PAGESIZE=4096'', ''ENCODING=UTF-8'', ''VERSION=1.0'',
     ''PAGES=0'', [], [], ''# PAGE'', ''PageID: 1'', ''LSN: 0'', ''Type: Index'',
     ''IsLeaf: true'', ''Keys: a,b,c'', ''Pointers: 2:1,3:1,4:1'', ''# PAGE'', ''PageID: 2'',
     ''LSN: 0'', ''Type: Data'', ''EntryIndex: 1'', ''Entry-1: a|A'', [], ''# PAGE'',
     ''PageID: 3'', ''LSN: 0'', ''Type: Data'', ''EntryIndex: 1'', ''Entry-1: b|B'', [],
     ''# PAGE'', ''PageID: 4'', ''LSN: 0'', ''Type: Data'', ''EntryIndex: 1'',
     ''Entry-1: c|C'', [], ''# PAGE'', ''PageID: 5'', ''LSN: 0'', ''Type: Data'',
     ''EntryIndex: 1'', ''Entry-1: user:1|X'']"
  by (rule Scanner_lines, simp only: file_mid_3_def) (simp add: line_eval)

lemma ReadPage_mid_3:
  "ReadPage \<lparr>FileContent = file_mid_3, PageSize = 4096, PageCount = 5, DeallocatedPages = []\<rparr> (Suc 0) = Inr (root_page ''a,b,c'' ''2:1,3:1,4:1'')"
  by (simp add: ReadPage_def Scanner_mid_3 page_eval) (simp add: root_page_def)

lemma readNode_mid_3:
  "readNode \<lparr>RootPageID = Suc 0, FileHandler = \<lparr>FileContent = file_mid_3, PageSize = 4096, PageCount = 5, DeallocatedPages = []\<rparr>\<rparr> (Suc 0) = Inr (leaf_node [''a'', ''b'', ''c''] [''2:1'', ''3:1'', ''4:1''])"
  by (simp add: readNode_def ReadPage_mid_3)
    (simp add: root_page_def leaf_node_def ParseBool_def split_texts)

lemma Insert_index_3:
  "BPlusTree_Insert \<lparr>RootPageID = Suc 0, FileHandler = \<lparr>FileContent = file_mid_3, PageSize = 4096, PageCount = 5, DeallocatedPages = []\<rparr>\<rparr> ''user:1'' 5 (Suc 0) index_order
     = (None, Index_of db_abc_x)"
  by (simp add: BPlusTree_Insert_def BTreeOrder_def readNode_mid_3)
    (simp add: leaf_node_def db_abc_x_def)

lemma Insert_step_3:
  "Database_Insert db_abc ''user:1'' ''X'' record_order index_order = (None, db_abc_x)"
proof -
  have a: "AllocatePage (FileHandler (Index_of db_abc))
      = (\<lparr>Header = \<lparr>PageLSN = 0, PageID = 5, PageType = []\<rparr>, Data = Map.empty\<rparr>,
         (FileHandler (Index_of db_abc))\<lparr>PageCount := 5\<rparr>)"
    by (simp add: AllocatePage_def db_abc_def)
  have r: "AddRecord \<lparr>Header = \<lparr>PageLSN = 0, PageID = 5, PageType = ''Data''\<rparr>, Data = Map.empty\<rparr>
        \<lparr>EntryIndex = 0, Fields = [''user:1'', ''X'']\<rparr>
      = Inr (1, \<lparr>Header = \<lparr>PageLSN = 0, PageID = 5, PageType = ''Data''\<rparr>,
      Data = [''EntryIndex'' \<mapsto> ''1'', ''Entry-1'' \<mapsto> ''user:1|X'']\<rparr>,
             \<lparr>EntryIndex = 1, Fields = [''user:1'', ''X'']\<rparr>)"
    by (simp add: AddRecord_def)
  have t: "(Index_of db_abc)\<lparr>FileHandler := \<lparr>FileContent = file_mid_3, PageSize = 4096, PageCount = 5, DeallocatedPages = []\<rparr>\<rparr>
      = \<lparr>RootPageID = Suc 0, FileHandler = \<lparr>FileContent = file_mid_3, PageSize = 4096, PageCount = 5, DeallocatedPages = []\<rparr>\<rparr>"
    by (simp add: db_abc_def)
  have u: "\<lparr>Index_of = Index_of db_abc_x\<rparr> = db_abc_x" by simp
  show ?thesis
    unfolding Database_Insert_def Find_prev_3 a
    by (simp add: r WritePage_data_3 t Insert_index_3 u)
qed

lemma Scanner_prev_4:
  "Scanner (file_mid_3) = map Line [''# DATABASE HEADER'', ''PAGESIZE=4096'', ''ENCODING=UTF-8'', ''VERSION=1.0'',
     ''PAGES=0'', [], [], ''# PAGE'', ''PageID: 1'', ''LSN: 0'', ''Type: Index'',
     ''IsLeaf: true'', ''Keys: a,b,c'', ''Pointers: 2:1,3:1,4:1'', ''# PAGE'', ''PageID: 2'',
     ''LSN: 0'', ''Type: Data'', ''EntryIndex: 1'', ''Entry-1: a|A'', [], ''# PAGE'',
     ''PageID: 3'', ''LSN: 0'', ''Type: Data'', ''EntryIndex: 1'', ''Entry-1: b|B'', [],
     ''# PAGE'', ''PageID: 4'', ''LSN: 0'', ''Type: Data'', ''EntryIndex: 1'',
     ''Entry-1: c|C'', [], ''# PAGE'', ''PageID: 5'', ''LSN: 0'', ''Type: Data'',
     ''EntryIndex: 1'', ''Entry-1: user:1|X'']"
  by (rule Scanner_lines, simp only: file_mid_3_def) (simp add: line_eval)

lemma ReadPage_prev_4:
  "ReadPage (FileHandler (Index_of db_abc_x)) (Suc 0) = Inr (root_page ''a,b,c'' ''2:1,3:1,4:1'')"
  using Scanner_prev_4
  by (simp add: ReadPage_def db_abc_x_def page_eval) (simp add: root_page_def)

lemma readNode_prev_4:
  "readNode (Index_of db_abc_x) (RootPageID (Index_of db_abc_x)) = Inr (leaf_node [''a'', ''b'', ''c''] [''2:1'', ''3:1'', ''4:1''])"
proof -
  have "RootPageID (Index_of db_abc_x) = Suc 0" by (simp add: db_abc_x_def)
  then show ?thesis
    by (simp add: readNode_def ReadPage_prev_4)
      (simp add: root_page_def leaf_node_def ParseBool_def split_texts)
qed

lemma Find_prev_4: "Find (Index_of db_abc_x) ''user:1'' = Inr (0, 0)"
  by (simp add: Find_def readNode_prev_4 leaf_node_def)

lemma WritePage_data_4:
  "WritePage ((FileHandler (Index_of db_abc_x))\<lparr>PageCount := 6\<rparr>)
     \<lparr>Header = \<lparr>PageLSN = 0, PageID = 6, PageType = ''Data''\<rparr>,
      Data = [''EntryIndex'' \<mapsto> ''1'', ''Entry-1'' \<mapsto> ''user:1|Y'']\<rparr> record_order
   = (None, \<lparr>FileContent = file_mid_4, PageSize = 4096, PageCount = 6, DeallocatedPages = []\<rparr>)"
proof -
  have "Index (file_mid_3) ''PageID: 6'' = None"
    by (simp add: file_mid_3_def)
  then have "place_page (file_mid_3) ''PageID: 6'' new
      = Inr (file_mid_3 @ NL @ new)" for new
    by (simp add: place_page_def)
  then show ?thesis
    by (simp add: WritePage_def PageIDMarker_def db_abc_x_def)
      (simp add: NewPageContent_def payload_line_def file_mid_3_def file_mid_4_def
        PageSection_def NL_def record_order_def)
qed

lemma Scanner_mid_4:
  "Scanner file_mid_4 = map Line [''# DATABASE HEADER'', ''PAGESIZE=4096'', ''ENCODING=UTF-8'', ''VERSION=1.0'',
     ''PAGES=0'', [], [], ''# PAGE'', ''PageID: 1'', ''LSN: 0'', ''Type: Index'',
     ''IsLeaf: true'', ''Keys: a,b,c'', ''Pointers: 2:1,3:1,4:1'', ''# PAGE'', ''PageID: 2'',
     ''LSN: 0'', ''Type: Data'', ''EntryIndex: 1'', ''Entry-1: a|A'', [], ''# PAGE'',
     ''PageID: 3'', ''LSN: 0'', ''Type: Data'', ''EntryIndex: 1'', ''Entry-1: b|B'', [],
     ''# PAGE'', ''PageID: 4'', ''LSN: 0'', ''Type: Data'', ''EntryIndex: 1'',
     ''Entry-1: c|C'', [], ''# PAGE'', ''PageID: 5'', ''LSN: 0'', ''Type: Data'',
     ''EntryIndex: 1'', ''Entry-1: user:1|X'', [], ''# PAGE'', ''PageID: 6'', ''LSN: 0'',
     ''Type: Data'', ''EntryIndex: 1'', ''Entry-1: user:1|Y'']"
  by (rule Scanner_lines, simp only: file_mid_4_def) (simp add: line_eval)

lemma ReadPage_mid_4:
  "ReadPage \<lparr>FileContent = file_mid_4, PageSize = 4096, PageCount = 6, DeallocatedPages = []\<rparr> (Suc 0) = Inr (root_page ''a,b,c'' ''2:1,3:1,4:1'')"
  by (simp add: ReadPage_def Scanner_mid_4 page_eval) (simp add: root_page_def)

lemma readNode_mid_4:
  "readNode \<lparr>RootPageID = Suc 0, FileHandler = \<lparr>FileContent = file_mid_4, PageSize = 4096, PageCount = 6, DeallocatedPages = []\<rparr>\<rparr> (Suc 0) = Inr (leaf_node [''a'', ''b'', ''c''] [''2:1'', ''3:1'', ''4:1''])"
  by (simp add: readNode_def ReadPage_mid_4)
    (simp add: root_page_def leaf_node_def ParseBool_def split_texts)

lemma Insert_index_4:
  "BPlusTree_Insert \<lparr>RootPageID = Suc 0, FileHandler = \<lparr>FileContent = file_mid_4, PageSize = 4096, PageCount = 6, DeallocatedPages = []\<rparr>\<rparr> ''user:1'' 6 (Suc 0) index_order
     = (None, Index_of db_abc_xy)"
  by (simp add: BPlusTree_Insert_def BTreeOrder_def readNode_mid_4)
    (simp add: leaf_node_def db_abc_xy_def)

lemma Insert_step_4:
  "Database_Insert db_abc_x ''user:1'' ''Y'' record_order index_order = (None, db_abc_xy)"
proof -
  have a: "AllocatePage (FileHandler (Index_of db_abc_x))
      = (\<lparr>Header = \<lparr>PageLSN = 0, PageID = 6, PageType = []\<rparr>, Data = Map.empty\<rparr>,
         (FileHandler (Index_of db_abc_x))\<lparr>PageCount := 6\<rparr>)"
    by (simp add: AllocatePage_def db_abc_x_def)
  have r: "AddRecord \<lparr>Header = \<lparr>PageLSN = 0, PageID = 6, PageType = ''Data''\<rparr>, Data = Map.empty\<rparr>
        \<lparr>EntryIndex = 0, Fields = [''user:1'', ''Y'']\<rparr>
      = Inr (1, \<lparr>Header = \<lparr>PageLSN = 0, PageID = 6, PageType = ''Data''\<rparr>,
      Data = [''EntryIndex'' \<mapsto> ''1'', ''Entry-1'' \<mapsto> ''user:1|Y'']\<rparr>,
             \<lparr>EntryIndex = 1, Fields = [''user:1'', ''Y'']\<rparr>)"
    by (simp add: AddRecord_def)
  have t: "(Index_of db_abc_x)\<lparr>FileHandler := \<lparr>FileContent = file_mid_4, PageSize = 4096, PageCount = 6, DeallocatedPages = []\<rparr>\<rparr>
      = \<lparr>RootPageID = Suc 0, FileHandler = \<lparr>FileContent = file_mid_4, PageSize = 4096, PageCount = 6, DeallocatedPages = []\<rparr>\<rparr>"
    by (simp add: db_abc_x_def)
  have u: "\<lparr>Index_of = Index_of db_abc_xy\<rparr> = db_abc_xy" by simp
  show ?thesis
    unfolding Database_Insert_def Find_prev_4 a
    by (simp add: r WritePage_data_4 t Insert_index_4 u)
qed

lemma Get_after_two: "Get db_abc_xy ''user:1'' = Inr None"
proof -
  have s: "Scanner file_mid_4 = map Line [''# DATABASE HEADER'', ''PAGESIZE=4096'', ''ENCODING=UTF-8'', ''VERSION=1.0'',
     ''PAGES=0'', [], [], ''# PAGE'', ''PageID: 1'', ''LSN: 0'', ''Type: Index'',
     ''IsLeaf: true'', ''Keys: a,b,c'', ''Pointers: 2:1,3:1,4:1'', ''# PAGE'', ''PageID: 2'',
     ''LSN: 0'', ''Type: Data'', ''EntryIndex: 1'', ''Entry-1: a|A'', [], ''# PAGE'',
     ''PageID: 3'', ''LSN: 0'', ''Type: Data'', ''EntryIndex: 1'', ''Entry-1: b|B'', [],
     ''# PAGE'', ''PageID: 4'', ''LSN: 0'', ''Type: Data'', ''EntryIndex: 1'',
     ''Entry-1: c|C'', [], ''# PAGE'', ''PageID: 5'', ''LSN: 0'', ''Type: Data'',
     ''EntryIndex: 1'', ''Entry-1: user:1|X'', [], ''# PAGE'', ''PageID: 6'', ''LSN: 0'',
     ''Type: Data'', ''EntryIndex: 1'', ''Entry-1: user:1|Y'']"
    by (rule Scanner_lines, simp only: file_mid_4_def) (simp add: line_eval)
  have "ReadPage (FileHandler (Index_of db_abc_xy)) (Suc 0) = Inr (root_page ''a,b,c'' ''2:1,3:1,4:1'')"
    by (simp add: ReadPage_def db_abc_xy_def s page_eval) (simp add: root_page_def)
  moreover have "RootPageID (Index_of db_abc_xy) = Suc 0" by (simp add: db_abc_xy_def)
  ultimately have "readNode (Index_of db_abc_xy) (RootPageID (Index_of db_abc_xy))
      = Inr (leaf_node [''a'', ''b'', ''c''] [''2:1'', ''3:1'', ''4:1''])"
    by (simp add: readNode_def) (simp add: root_page_def leaf_node_def ParseBool_def split_texts)
  then have "Find (Index_of db_abc_xy) ''user:1'' = Inr (0, 0)"
    by (simp add: Find_def leaf_node_def)
  then show ?thesis by (simp add: Get_def)
qed

lemma Index_None_iff: "Index s sep = None \<longleftrightarrow> \<not> sublist sep s"
  by (induction s) (simp_all add: sublist_Cons_right)

lemma Contains_sublist: "Contains s sub \<longleftrightarrow> sublist sub s"
  by (simp add: Contains_def Index_None_iff)

lemma Index_Some_prefix: "Index s sep = Some i \<Longrightarrow> prefix sep (drop i s)"
proof (induction s arbitrary: i)
  case Nil
  then show ?case by (simp split: if_splits)
next
  case (Cons c cs)
  then show ?case by (cases "prefix sep (c # cs)") auto
qed

lemma Index_short: "length s < length sep \<Longrightarrow> Index s sep = None"
proof -
  assume "length s < length sep"
  then have "\<not> sublist sep s" by (auto simp: sublist_def)
  then show ?thesis by (simp add: Index_None_iff)
qed

lemma Index_take_None:
  assumes "Index c m = Some i" "k < i + length m"
  shows "Index (take k c) m = None"
  using assms
proof (induction c arbitrary: i k)
  case Nil
  then show ?case by (simp split: if_splits)
next
  case (Cons a c)
  show ?case
  proof (cases "prefix m (a # c)")
    case True
    with Cons.prems have "i = 0" by simp
    with Cons.prems(2) have "length (take k (a # c)) < length m" by simp
    then show ?thesis by (rule Index_short)
  next
    case False
    with Cons.prems obtain i' where i': "Index c m = Some i'" "i = Suc i'" by auto
    show ?thesis
    proof (cases k)
      case 0
      from False have "m \<noteq> []" by auto
      with 0 show ?thesis by simp
    next
      case (Suc k')
      with Cons.prems(2) i' have "k' < i' + length m" by simp
      with i'(1) have ih: "Index (take k' c) m = None" by (rule Cons.IH)
      have "\<not> prefix m (a # take k' c)"
      proof
        assume "prefix m (a # take k' c)"
        moreover have "prefix (a # take k' c) (a # c)" by (simp add: take_is_prefix)
        ultimately have "prefix m (a # c)" by (rule prefix_order.trans)
        with False show False ..
      qed
      with ih Suc show ?thesis by simp
    qed
  qed
qed

lemma LastIndex_bound: "LastIndex x sep = Some s \<Longrightarrow> s + length sep \<le> length x"
proof (induction x arbitrary: s)
  case Nil
  then show ?case by (simp split: if_splits)
next
  case (Cons c cs)
  show ?case
  proof (cases "LastIndex cs sep")
    case None
    with Cons.prems have "prefix sep (c # cs)" "s = 0" by (auto split: if_splits)
    then show ?thesis using prefix_length_le by fastforce
  next
    case (Some j)
    with Cons.prems have "s = Suc j" by simp
    with Cons.IH [OF Some] show ?thesis by simp
  qed
qed

lemma sublist_append_last:
  assumes "sublist m (p @ q)" "m \<noteq> []" "last m \<notin> set q"
  shows "sublist m p"
proof -
  from assms(1) consider "sublist m p" | "sublist m q"
    | xs1 xs2 where "m = xs1 @ xs2" "suffix xs1 p" "prefix xs2 q"
    by (auto simp: sublist_append)
  then show ?thesis
  proof cases
    case 1
    then show ?thesis .
  next
    case 2
    then have "set m \<subseteq> set q" by (rule set_mono_sublist)
    with assms(2,3) show ?thesis using last_in_set by blast
  next
    case 3
    show ?thesis
    proof (cases "xs2 = []")
      case True
      with 3 show ?thesis by (simp add: suffix_imp_sublist)
    next
      case False
      with 3(1) have "last m = last xs2" by simp
      moreover from False have "last xs2 \<in> set xs2" by simp
      moreover from 3(3) have "set xs2 \<subseteq> set q" by (rule set_mono_prefix)
      ultimately show ?thesis using assms(3) by auto
    qed
  qed
qed

text \<open>What \<open>place_page\<close> returns: the new section between a text without the marker and
  a text that is empty or starts a section.\<close>

lemma place_page_shape:
  assumes "place_page content m new = Inr c'" "m \<noteq> []" "last m \<noteq> CHR 0x0A"
  shows "\<exists>pre post. c' = pre @ new @ post \<and> \<not> sublist m pre
           \<and> (post = [] \<or> prefix PageSection post)"
proof (cases "Index content m")
  case None
  with assms(1) have c': "c' = (content @ NL) @ new @ []" by (simp add: place_page_def)
  have "\<not> sublist m (content @ NL)"
  proof
    assume a: "sublist m (content @ NL)"
    from assms(3) have b: "last m \<notin> set NL" by (simp add: NL_def)
    from a assms(2) b have "sublist m content" by (rule sublist_append_last)
    with None show False by (simp add: Index_None_iff)
  qed
  with c' show ?thesis by blast
next
  case (Some i)
  with assms(1) obtain s where s: "LastIndex (take i content) PageSection = Some s"
    by (cases "LastIndex (take i content) PageSection") (simp_all add: place_page_def)
  from LastIndex_bound [OF s] have "s \<le> i" by simp
  with assms(2) have "s < i + length m" by (cases m) simp_all
  with Some have "Index (take s content) m = None" by (rule Index_take_None)
  then have pre: "\<not> sublist m (take s content)" by (simp add: Index_None_iff)
  show ?thesis
  proof (cases "Index (drop (s + length PageSection) content) PageSection")
    case None
    with assms(1) Some s have "c' = take s content @ new @ []" by (simp add: place_page_def)
    with pre show ?thesis by blast
  next
    case e: (Some e)
    with assms(1) Some s
    have c': "c' = take s content @ new @ drop (e + (s + length PageSection)) content"
      by (simp add: place_page_def)
    from Index_Some_prefix [OF e]
    have "prefix PageSection (drop (e + (s + length PageSection)) content)" by simp
    with pre c' show ?thesis by blast
  qed
qed

lemma lines_decompose:
  "\<exists>ps p. s = unlines ps @ p \<and> (\<forall>l\<in>set ps. CHR 0x0A \<notin> set l) \<and> CHR 0x0A \<notin> set p"
proof (induction s)
  case Nil
  have "[] = unlines [] @ []" by simp
  then show ?case by fastforce
next
  case (Cons c s)
  then obtain ps p where s: "s = unlines ps @ p" and ps: "\<forall>l\<in>set ps. CHR 0x0A \<notin> set l"
    and p: "CHR 0x0A \<notin> set p" by blast
  show ?case
  proof (cases "c = CHR 0x0A")
    case True
    with s have "c # s = unlines ([] # ps) @ p" by simp
    moreover from ps have "\<forall>l\<in>set ([] # ps). CHR 0x0A \<notin> set l" by simp
    ultimately show ?thesis using p by blast
  next
    case False
    show ?thesis
    proof (cases ps)
      case Nil
      with s have "c # s = unlines [] @ (c # p)" by simp
      moreover from False p have "CHR 0x0A \<notin> set (c # p)" by simp
      ultimately show ?thesis by fastforce
    next
      case (Cons l ls)
      with s have "c # s = unlines ((c # l) # ls) @ p" by simp
      moreover from False ps Cons have "\<forall>x\<in>set ((c # l) # ls). CHR 0x0A \<notin> set x" by simp
      ultimately show ?thesis using p by blast
    qed
  qed
qed

lemma split_lines_section:
  assumes "prefix PageSection post"
  shows "\<exists>l ls. split_lines post = l # ls \<and> prefix PageSection l"
proof -
  from assms obtain r where "post = PageSection @ r" by (auto simp: prefix_def)
  then show ?thesis
    by (simp add: PageSection_def split: list.split)
qed

lemma dropCR_section: "prefix PageSection l \<Longrightarrow> prefix PageSection (dropCR l)"
proof -
  assume "prefix PageSection l"
  then obtain r where l: "l = PageSection @ r" by (auto simp: prefix_def)
  show ?thesis
  proof (cases "r = []")
    case True
    with l show ?thesis by (simp add: dropCR_def PageSection_def)
  next
    case False
    with l have "butlast l = PageSection @ butlast r" by (simp add: butlast_append)
    with l show ?thesis by (simp add: dropCR_def)
  qed
qed

lemma dropCR_sublist: "sublist m (dropCR l) \<Longrightarrow> sublist m l"
proof -
  assume a: "sublist m (dropCR l)"
  show ?thesis
  proof (cases "l \<noteq> [] \<and> last l = CHR 0x0D")
    case True
    then have "butlast l @ [last l] = l" by (intro append_butlast_last_id) simp
    then have "sublist (butlast l) l" by (metis sublist_append_rightI)
    moreover from True a have "sublist m (butlast l)" by (simp add: dropCR_def)
    ultimately show ?thesis by (metis sublist_order.order.trans)
  next
    case False
    with a show ?thesis by (auto simp: dropCR_def)
  qed
qed

lemma strip_leading_suffix: "suffix (strip_leading ws s) s"
proof (induction ws s rule: strip_leading.induct)
  case (1 ws s)
  show ?case
  proof (cases "leading_space ws s")
    case None
    then show ?thesis by (simp add: strip_leading.simps)
  next
    case (Some w)
    with 1 have "suffix (strip_leading ws (drop (length w) s)) (drop (length w) s)" by simp
    moreover have "suffix (drop (length w) s) s" by (rule suffix_drop)
    ultimately have "suffix (strip_leading ws (drop (length w) s)) s" by (rule suffix_order.trans)
    with Some show ?thesis by (simp add: strip_leading.simps)
  qed
qed

lemma strip_leading_done: "leading_space ws (strip_leading ws s) = None"
proof (induction ws s rule: strip_leading.induct)
  case (1 ws s)
  show ?case
  proof (cases "leading_space ws s")
    case None
    then show ?thesis by (simp add: strip_leading.simps)
  next
    case (Some w)
    with 1 show ?thesis by (simp add: strip_leading.simps)
  qed
qed

lemma TrimSpace_last:
  assumes "TrimSpace v = v" "v \<noteq> []"
  shows "last v \<noteq> CHR 0x0D"
proof
  assume cr: "last v = CHR 0x0D"
  let ?u = "strip_leading space_encodings v"
  let ?t = "strip_leading (map rev space_encodings) (rev ?u)"
  from assms(1) have tv: "rev ?t = v" by (simp add: TrimSpace_def)
  have 1: "length ?t \<le> length (rev ?u)" using strip_leading_suffix by (rule suffix_length_le)
  have 2: "length ?u \<le> length v" using strip_leading_suffix by (rule suffix_length_le)
  from tv have 3: "length ?t = length v" by (metis length_rev)
  from 2 3 1 have "length ?u = length v" by simp
  with strip_leading_suffix [of space_encodings v] have u: "?u = v"
    by (metis suffix_length_le suffix_order.antisym suffix_def append_eq_append_conv append_Nil)
  from tv have t: "?t = rev v" by (metis rev_rev_ident)
  have "leading_space (map rev space_encodings) ?t = None" by (rule strip_leading_done)
  with t have none: "leading_space (map rev space_encodings) (rev v) = None" by simp
  from assms(2) cr have "prefix [CHR 0x0D] (rev v)"
    by (cases v rule: rev_cases) simp_all
  moreover have "[CHR 0x0D] \<in> set (map rev space_encodings)"
    by (simp add: space_encodings_def)
  ultimately show False using none
    by (auto simp: leading_space_def find_None_iff)
qed

lemma dropCR_field:
  assumes "TrimSpace v = v"
  shows "dropCR (k @ '': '' @ v) = k @ '': '' @ v"
proof (cases "v = []")
  case True
  then show ?thesis by (simp add: dropCR_def)
next
  case False
  with assms have "last v \<noteq> CHR 0x0D" by (intro TrimSpace_last)
  with False show ?thesis by (simp add: dropCR_def)
qed

lemma page_lines_plain:
  assumes "clean_page pg" "set order \<subseteq> dom (Data pg)"
  shows "\<forall>l\<in>set (page_lines pg order). CHR 0x0A \<notin> set l \<and> dropCR l = l"
proof -
  have digits: "CHR 0x0A \<notin> set (FormatUint n)" "TrimSpace (FormatUint n) = FormatUint n" for n
    using FormatUint_digits [of "CHR 0x0A" n] by (auto simp: is_digit_def)
  have a: "CHR 0x0A \<notin> set (PageIDMarker (PageID (Header pg)))
      \<and> dropCR (PageIDMarker (PageID (Header pg))) = PageIDMarker (PageID (Header pg))"
    using digits dropCR_field [of "FormatUint (PageID (Header pg))" "''PageID''"]
    by (simp add: PageIDMarker_def)
  have b: "CHR 0x0A \<notin> set (''LSN: '' @ FormatUint (PageLSN (Header pg)))
      \<and> dropCR (''LSN: '' @ FormatUint (PageLSN (Header pg)))
          = ''LSN: '' @ FormatUint (PageLSN (Header pg))"
    using digits dropCR_field [of "FormatUint (PageLSN (Header pg))" "''LSN''"] by simp
  have c: "CHR 0x0A \<notin> set (''Type: '' @ PageType (Header pg))
      \<and> dropCR (''Type: '' @ PageType (Header pg)) = ''Type: '' @ PageType (Header pg)"
    using assms(1) dropCR_field [of "PageType (Header pg)" "''Type''"]
    by (simp add: clean_page_def field_value_def)
  have d: "CHR 0x0A \<notin> set (k @ '': '' @ the (Data pg k))
      \<and> dropCR (k @ '': '' @ the (Data pg k)) = k @ '': '' @ the (Data pg k)"
    if "k \<in> set order" for k
  proof -
    from that assms(2) have "k \<in> dom (Data pg)" by auto
    with assms(1) have "field_key k" "field_value (the (Data pg k))"
      by (auto simp: clean_page_def)
    then show ?thesis
      using dropCR_field [of "the (Data pg k)" k] by (simp add: field_key_def field_value_def)
  qed
  show ?thesis
    unfolding page_lines_def payload_lines_def using a b c d by auto
qed

lemma sublist_line: "l \<in> set ps \<Longrightarrow> sublist l (unlines ps @ p)"
proof (induction ps)
  case Nil
  then show ?case by simp
next
  case (Cons a ps)
  show ?case
  proof (cases "l = a")
    case True
    then show ?thesis by simp
  next
    case False
    with Cons have "sublist l (unlines ps @ p)" by simp
    moreover have "sublist (unlines ps @ p) ((a @ [CHR 0x0A]) @ unlines ps @ p)"
      by (rule sublist_append_leftI)
    ultimately have "sublist l ((a @ [CHR 0x0A]) @ unlines ps @ p)"
      by (rule sublist_order.order.trans)
    then show ?thesis by simp
  qed
qed

lemma marker_last:
  "PageIDMarker n \<noteq> []" "last (PageIDMarker n) \<noteq> CHR 0x0A"
  "last (PageIDMarker n) \<notin> set PageSection"
proof -
  have "last (FormatUint n) \<in> set (FormatUint n)" by simp
  then have "is_digit (last (FormatUint n))" by (rule FormatUint_digits)
  then show "last (PageIDMarker n) \<noteq> CHR 0x0A" "last (PageIDMarker n) \<notin> set PageSection"
    by (auto simp: PageIDMarker_def is_digit_def PageSection_def)
  show "PageIDMarker n \<noteq> []" by (simp add: PageIDMarker_def)
qed

lemma read_placed_page:
  assumes clean: "clean_page pg" and order: "iteration_order order (Data pg)"
    and place: "place_page content (PageIDMarker (PageID (Header pg))) (NewPageContent pg order)
        = Inr c'"
    and short: "TooLong \<notin> set (Scanner c')"
  shows "ReadPage_loop (PageIDMarker (PageID (Header pg))) (Scanner c')
           (False, False, blank_page (PageID (Header pg))) = (True, pg, False)"
proof -
  let ?m = "PageIDMarker (PageID (Header pg))"
  let ?pl = "page_lines pg order"
  from order have dom: "set order \<subseteq> dom (Data pg)" by (simp add: iteration_order_def)
  from place_page_shape [OF place marker_last(1,2)]
  obtain pre post where c': "c' = pre @ NewPageContent pg order @ post"
    and pre: "\<not> sublist ?m pre" and post: "post = [] \<or> prefix PageSection post"
    by blast
  obtain ps p where p: "pre = unlines ps @ p" and ps: "\<forall>l\<in>set ps. CHR 0x0A \<notin> set l"
    and pn: "CHR 0x0A \<notin> set p"
    using lines_decompose [of pre] by blast
  have plain: "\<forall>l\<in>set ?pl. CHR 0x0A \<notin> set l \<and> dropCR l = l"
    using clean dom by (rule page_lines_plain)
  let ?L = "ps @ [p @ PageSection] @ ?pl"
  have c'': "c' = unlines ?L @ post"
    by (simp add: c' p NewPageContent_unlines [OF dom])
  have "\<forall>l\<in>set ?L. CHR 0x0A \<notin> set l"
    using ps pn plain by (auto simp: PageSection_def)
  then have sl: "split_lines c' = ?L @ split_lines post"
    unfolding c'' by (rule split_lines_unlines)
  have len: "\<forall>l\<in>set (split_lines c'). length l < MaxScanTokenSize"
  proof
    fix l assume "l \<in> set (split_lines c')"
    with short show "length l < MaxScanTokenSize"
      by (fastforce simp: Scanner_def image_iff split: if_splits)
  qed
  then have "Scanner c' = map (\<lambda>l. Line (dropCR l)) (split_lines c')"
    by (simp add: Scanner_def not_le [symmetric] del: not_le)
  also have "\<dots> = map Line (map dropCR (ps @ [p @ PageSection])) @ map Line ?pl
      @ map Line (map dropCR (split_lines post))"
    using plain by (simp add: sl)
  finally have scan: "Scanner c' = map Line (map dropCR (ps @ [p @ PageSection]))
      @ map Line ?pl @ map Line (map dropCR (split_lines post))" .
  have before: "\<forall>l\<in>set (map dropCR (ps @ [p @ PageSection])). \<not> Contains l ?m"
  proof
    fix l assume "l \<in> set (map dropCR (ps @ [p @ PageSection]))"
    then obtain x where x: "x \<in> set ps \<or> x = p @ PageSection" and l: "l = dropCR x" by auto
    show "\<not> Contains l ?m"
    proof
      assume "Contains l ?m"
      then have "sublist ?m (dropCR x)" by (simp add: Contains_sublist l)
      then have mx: "sublist ?m x" by (rule dropCR_sublist)
      from x have "sublist ?m pre"
      proof
        assume "x \<in> set ps"
        then have "sublist x pre" unfolding p by (rule sublist_line)
        with mx show ?thesis by (rule sublist_order.order.trans)
      next
        assume "x = p @ PageSection"
        with mx have "sublist ?m (p @ PageSection)" by simp
        then have "sublist ?m p" using marker_last(1,3) by (rule sublist_append_last)
        moreover have "sublist p pre" unfolding p by (rule sublist_append_leftI)
        ultimately show ?thesis by (rule sublist_order.order.trans)
      qed
      with pre show False ..
    qed
  qed
  have after: "map Line (map dropCR (split_lines post)) = []
      \<or> (\<exists>l ts. map Line (map dropCR (split_lines post)) = Line l # ts \<and> HasPrefix l PageSection)"
    using post
  proof
    assume "post = []"
    then show ?thesis by simp
  next
    assume "prefix PageSection post"
    then obtain l ls where "split_lines post = l # ls" "prefix PageSection l"
      using split_lines_section by blast
    then show ?thesis by (simp add: HasPrefix_def dropCR_section)
  qed
  show ?thesis
    unfolding scan using clean order before after by (rule ReadPage_loop_section)
qed

lemma WritePage_ReadPage:
  assumes "clean_page pg" and "iteration_order order (Data pg)"
    and "1 \<le> PageID (Header pg)" and "PageID (Header pg) \<le> PageCount fh"
    and "WritePage fh pg order = (None, fh')"
    and "TooLong \<notin> set (Scanner (FileContent fh'))"
  shows "ReadPage fh' (PageID (Header pg)) = Inr pg"
proof -
  from assms(4,5) obtain c' where
    place: "place_page (FileContent fh) (PageIDMarker (PageID (Header pg)))
        (NewPageContent pg order) = Inr c'"
    and fh': "fh' = fh\<lparr>FileContent := c'\<rparr>"
    by (cases "place_page (FileContent fh) (PageIDMarker (PageID (Header pg)))
        (NewPageContent pg order)") (auto simp: WritePage_def)
  from assms(6) have "TooLong \<notin> set (Scanner c')" by (simp add: fh')
  with assms(1,2) place
  have "ReadPage_loop (PageIDMarker (PageID (Header pg))) (Scanner c')
      (False, False, blank_page (PageID (Header pg))) = (True, pg, False)"
    by (rule read_placed_page)
  with assms(3,4) show ?thesis
    by (simp add: ReadPage_def fh' blank_page_def)
qed

lemma AllocatePage_fresh:
  "AllocatePage fresh_handler
     = (\<lparr>Header = \<lparr>PageLSN = 0, PageID = 1, PageType = []\<rparr>, Data = Map.empty\<rparr>,
        fresh_handler\<lparr>PageCount := 1\<rparr>)"
  by (simp add: AllocatePage_def fresh_handler_def)

lemma WritePage_padded:
  "WritePage (fresh_handler\<lparr>PageCount := 1\<rparr>) padded_page [''note'']
     = (None, fresh_handler\<lparr>PageCount := 1, FileContent := padded_file\<rparr>)"
proof -
  have "Index InitialContent ''PageID: 1'' = None"
    by (simp add: InitialContent_def HeaderSection_def NL_def)
  then have "place_page InitialContent ''PageID: 1'' new = Inr (InitialContent @ NL @ new)" for new
    by (simp add: place_page_def)
  then show ?thesis
    by (simp add: WritePage_def PageIDMarker_def padded_page_def fresh_handler_def)
      (simp add: NewPageContent_def payload_line_def InitialContent_def HeaderSection_def
        padded_file_def PageSection_def NL_def)
qed

lemma TrimSpace_padded: "TrimSpace ''x '' = ''x''"
  by (simp add: TrimSpace_def strip_leading.simps leading_space_def space_encodings_def)

lemma ReadPage_padded:
  "ReadPage (fresh_handler\<lparr>PageCount := 1, FileContent := padded_file\<rparr>) 1
     = Inr (padded_page\<lparr>Data := [''note'' \<mapsto> ''x'']\<rparr>)"
proof -
  have s: "Scanner padded_file = map Line [''# DATABASE HEADER'', ''PAGESIZE=4096'',
      ''ENCODING=UTF-8'', ''VERSION=1.0'', ''PAGES=0'', [], [], ''# PAGE'', ''PageID: 1'', ''LSN: 0'',
      ''Type: Data'', ''note: x '']"
    by (rule Scanner_lines, simp only: padded_file_def) (simp add: line_eval)
  show ?thesis
    by (simp add: ReadPage_def fresh_handler_def s page_eval TrimSpace_padded)
      (simp add: padded_page_def)
qed

lemma padded_page_differs: "padded_page\<lparr>Data := [''note'' \<mapsto> ''x'']\<rparr> \<noteq> padded_page"
proof
  assume "padded_page\<lparr>Data := [''note'' \<mapsto> ''x'']\<rparr> = padded_page"
  then have "Data (padded_page\<lparr>Data := [''note'' \<mapsto> ''x'']\<rparr>) ''note'' = Data padded_page ''note''"
    by simp
  then show False by (simp add: padded_page_def)
qed

lemma clean_page_five: "clean_page page_five"
  by (auto simp: clean_page_def page_five_def graphic_def
      intro!: field_value_graphic field_key_graphic)

lemma Scanner_page_five:
  "Scanner page_five_file = map Line [''# DATABASE HEADER'', ''PAGESIZE=4096'',
     ''ENCODING=UTF-8'', ''VERSION=1.0'', ''PAGES=5'', ''DEALLOCATED_PAGES=5'', [], [], ''# PAGE'',
     ''PageID: 5'', ''LSN: 0'', ''Type: Data'', ''EntryIndex: 1'', ''Entry-1: k|X'']"
  by (rule Scanner_lines, simp only: page_five_file_def) (simp add: line_eval)

section \<open>The claims\<close>

text \<open>
  Claim C9. For every key the root leaf does not hold, \<open>BPlusTree.Find\<close> returns page 0
  and entry 0 with no error, and \<open>Database.Get\<close> returns no record and no error: the
  absence is a value, not an error.
\<close>

theorem find_absent_key_in_band:
  assumes "readNode tree (RootPageID tree) = Inr Node" and "IsLeaf Node"
    and "key \<notin> set (Keys Node)"
  shows "Find tree key = Inr (0, 0) \<and> Get \<lparr>Index_of = tree\<rparr> key = Inr None"
proof -
  from assms(3) have "first_index (Keys Node) key = None" by (simp add: first_index_None)
  with assms(1,2) have "Find tree key = Inr (0, 0)" by (simp add: Find_def)
  then show ?thesis by (simp add: Get_def)
qed

theorem find_absent_key_in_band_witness:
  "Find (run (empty_tree index_order) three_inserts) ''d'' = Inr (0, 0)
   \<and> Get \<lparr>Index_of = run (empty_tree index_order) three_inserts\<rparr> ''d'' = Inr None"
  using find_absent_key_in_band [OF readNode_stored [OF stored_abc], of "''d''"]
  by (simp add: leaf_node_def)

text \<open>
  Claim C10. When the root is a leaf that already holds \<open>BTreeOrder - 1 = 3\<close> keys, or is
  not a leaf, \<open>BPlusTree.Insert\<close> returns no error and leaves the tree, the file included,
  as it was: the key and the pointer are dropped.
\<close>

theorem insert_into_full_root_discarded:
  assumes "readNode tree (RootPageID tree) = Inr RootNode"
    and "(IsLeaf RootNode \<and> length (Keys RootNode) = BTreeOrder - 1) \<or> \<not> IsLeaf RootNode"
  shows "BTreeOrder - 1 = 3
       \<and> BPlusTree_Insert tree key pageID entryIndex order = (None, tree)"
  using assms by (auto simp: BPlusTree_Insert_def BTreeOrder_def)

theorem insert_into_full_root_discarded_witness:
  "BTreeOrder - 1 = 3
   \<and> BPlusTree_Insert (run (empty_tree index_order) three_inserts) ''d'' 5 1 index_order
       = (None, run (empty_tree index_order) three_inserts)"
  using insert_into_full_root_discarded [OF readNode_stored [OF stored_abc],
      of "''d''" 5 1 index_order]
  by (simp add: leaf_node_def BTreeOrder_def)

text \<open>
  Claim C7 as the specification states it, for every state of the index, does not hold.
  \<open>NewBPlusTree\<close> takes page 1 of an existing file as the root, whatever it holds. When
  that page says \<open>IsLeaf: false\<close>, both \<open>Delete\<close> functions answer a key that is not
  there with the error of the non-leaf root, not with the not-found error.
\<close>

theorem delete_absent_key_non_leaf_root:
  "NewTextFileHandler (Some inner_root_file) = Inr (FileHandler inner_root_tree)
   \<and> NewBPlusTree (FileHandler inner_root_tree) index_order = Inr inner_root_tree
   \<and> readNode inner_root_tree (RootPageID inner_root_tree) = Inr inner_root_node
   \<and> ''zz'' \<notin> set (Keys inner_root_node)
   \<and> BPlusTree_Delete inner_root_tree ''zz'' index_order = (Some NonLeafRoot, inner_root_tree)
   \<and> Database_Delete \<lparr>Index_of = inner_root_tree\<rparr> ''zz'' index_order index_order
       = (Some NonLeafRoot, \<lparr>Index_of = inner_root_tree\<rparr>)"
proof -
  have "\<not> IsLeaf inner_root_node" "''zz'' \<notin> set (Keys inner_root_node)"
    by (simp_all add: inner_root_node_def)
  then show ?thesis
    using readNode_inner_root
    by (simp add: NewTextFileHandler_inner_root NewBPlusTree_inner_root BPlusTree_Delete_def
        Database_Delete_def Find_def)
qed

text \<open>
  Claim C7, amended: when the root page can be read and is a leaf, deleting a key the leaf
  does not hold fails with the not-found error, in \<open>BPlusTree.Delete\<close> and in
  \<open>Database.Delete\<close>, and leaves the index as it was, so that \<open>Find\<close> gives for every key
  what it gave before.
\<close>

theorem delete_absent_key_fails:
  assumes "readNode (Index_of db) (RootPageID (Index_of db)) = Inr Node" and "IsLeaf Node"
    and "key \<notin> set (Keys Node)"
  shows "BPlusTree_Delete (Index_of db) key order = (Some KeyNotFound, Index_of db)
       \<and> Database_Delete db key order1 order2 = (Some RecordMissing, db)
       \<and> Find (snd (BPlusTree_Delete (Index_of db) key order)) k = Find (Index_of db) k
       \<and> Find (Index_of (snd (Database_Delete db key order1 order2))) k = Find (Index_of db) k"
proof -
  from assms(3) have absent: "first_index (Keys Node) key = None"
    by (simp add: first_index_None)
  with assms(1,2) have "BPlusTree_Delete (Index_of db) key order = (Some KeyNotFound, Index_of db)"
    by (simp add: BPlusTree_Delete_def)
  moreover from absent assms(1,2) have "Find (Index_of db) key = Inr (0, 0)"
    by (simp add: Find_def)
  then have "Database_Delete db key order1 order2 = (Some RecordMissing, db)"
    by (simp add: Database_Delete_def)
  ultimately show ?thesis by simp
qed

theorem delete_absent_key_fails_witness:
  "BPlusTree_Delete (run (empty_tree index_order) three_inserts) ''zz'' index_order
     = (Some KeyNotFound, run (empty_tree index_order) three_inserts)
   \<and> Database_Delete \<lparr>Index_of = run (empty_tree index_order) three_inserts\<rparr> ''zz''
        index_order index_order
     = (Some RecordMissing, \<lparr>Index_of = run (empty_tree index_order) three_inserts\<rparr>)
   \<and> Find (snd (BPlusTree_Delete (run (empty_tree index_order) three_inserts) ''zz''
        index_order)) ''b'' = Inr (3, 1)"
proof -
  let ?t = "run (empty_tree index_order) three_inserts"
  have r: "readNode (Index_of \<lparr>Index_of = ?t\<rparr>) (RootPageID (Index_of \<lparr>Index_of = ?t\<rparr>))
      = Inr (leaf_node (map fst [(''a'', 2, 1), (''b'', 3, 1), (''c'', 4, 1)])
          (map (pointer_text \<circ> snd) [(''a'', 2, 1), (''b'', 3, 1), (''c'', 4, 1)]))"
    using readNode_stored [OF stored_abc] by simp
  have "Find ?t ''b'' = Inr (3, 1)"
    using Find_stored [OF stored_abc, of "''b''"] by (simp add: index_pointer_def)
  with delete_absent_key_fails [OF r, of "''zz''" index_order index_order index_order "''b''"]
  show ?thesis by (simp add: leaf_node_def)
qed

text \<open>
  Claim C1 as the specification states it does not hold: the index is one root leaf of at
  most \<open>BTreeOrder - 1 = 3\<close> keys and nothing in the code splits it. Four keys, all
  different, are inserted into the index of a new store; the fourth \<open>Insert\<close> returns no
  error, and \<open>Find\<close> of the fourth key gives page 0 and entry 0, not the pointer
  \<open>(5, 1)\<close> inserted for it.
\<close>

theorem fourth_key_is_lost:
  "NewTextFileHandler None = Inr fresh_handler
   \<and> NewBPlusTree fresh_handler index_order = Inr (empty_tree index_order)
   \<and> fst (BPlusTree_Insert (run (empty_tree index_order) three_inserts) ''d'' 5 1 index_order)
       = None
   \<and> Find (run (empty_tree index_order) (three_inserts @ [(Insert_op ''d'' 5 1, index_order)]))
        ''d'' = Inr (0, 0)
   \<and> model Map.empty (map fst (three_inserts @ [(Insert_op ''d'' 5 1, index_order)])) ''d''
       = Some (5, 1)"
proof -
  have full: "BPlusTree_Insert (run (empty_tree index_order) three_inserts) ''d'' 5 1 index_order
      = (None, run (empty_tree index_order) three_inserts)"
    using stored_abc by (rule Insert_full) simp
  have "Find (run (empty_tree index_order) three_inserts) ''d'' = Inr (0, 0)"
    using Find_stored [OF stored_abc, of "''d''"] by (simp add: index_pointer_def)
  with full show ?thesis
    by (simp add: NewTextFileHandler_None NewBPlusTree_fresh run_snoc three_inserts_def)
qed

text \<open>
  Claim C1, amended. The calls are made on the index of a new store; every inserted key is
  a non-empty text of at most 21842 printable ASCII characters, none of them a space or a
  comma, that the index does not hold when the call arrives, every page id and entry index
  is below \<open>2 ^ 32\<close>, and the index holds fewer than \<open>BTreeOrder - 1 = 3\<close> keys when
  an \<open>Insert\<close> arrives (\<open>admissible\<close>). Then after each step \<open>Find\<close> returns, with
  no error, the pointer most recently inserted for the key, and page 0 and entry 0 for a
  key that was never inserted or has been deleted.
\<close>

theorem find_after_each_step:
  assumes "NewTextFileHandler None = Inr fh" and "NewBPlusTree fh order0 = Inr tree"
    and "root_order order0" and "admissible Map.empty ops"
  shows "Find (run tree (take n ops)) key
       = Inr (case model Map.empty (map fst (take n ops)) key of
                None \<Rightarrow> (0, 0) | Some pointer \<Rightarrow> pointer)"
proof -
  have tree: "tree = empty_tree order0" using assms(1,2) by (rule fresh_tree)
  have st: "stored tree []" unfolding tree using assms(3) by (rule stored_empty_tree)
  have "admissible (map_of []) (take n ops)" using assms(4) by (simp add: admissible_take)
  with st have "\<exists>kvs'. stored (run tree (take n ops)) kvs'
      \<and> (\<forall>e\<in>set kvs'. index_pointer (snd e))
      \<and> map_of kvs' = model (map_of []) (map fst (take n ops))"
    by (intro run_model) simp_all
  then obtain kvs' where "stored (run tree (take n ops)) kvs'"
    and "\<forall>e\<in>set kvs'. index_pointer (snd e)"
    and m: "map_of kvs' = model Map.empty (map fst (take n ops))"
    by auto
  then have "Find (run tree (take n ops)) key
      = Inr (case map_of kvs' key of None \<Rightarrow> (0, 0) | Some p \<Rightarrow> p)"
    by (intro Find_stored)
  then show ?thesis by (simp only: m)
qed

theorem find_after_each_step_witness:
  "Find (run (empty_tree index_order) three_inserts) ''b'' = Inr (3, 1)
   \<and> Find (run (empty_tree index_order) (three_inserts @ [(Delete_op ''b'', index_order)]))
        ''b'' = Inr (0, 0)
   \<and> Find (run (empty_tree index_order) (three_inserts @ [(Delete_op ''b'', index_order)]))
        ''c'' = Inr (4, 1)"
  using find_after_each_step [OF NewTextFileHandler_None NewBPlusTree_fresh, of index_order
      "three_inserts @ [(Delete_op ''b'', index_order)]" 3 "''b''"]
    find_after_each_step [OF NewTextFileHandler_None NewBPlusTree_fresh, of index_order
      "three_inserts @ [(Delete_op ''b'', index_order)]" 4 "''b''"]
    find_after_each_step [OF NewTextFileHandler_None NewBPlusTree_fresh, of index_order
      "three_inserts @ [(Delete_op ''b'', index_order)]" 4 "''c''"]
  by (simp add: three_inserts_def BTreeOrder_def index_pointer_def)

text \<open>
  Claim C2 as the specification states it does not hold: \<open>Insert\<close> has no split. After
  the five inserts of Scenario A into the index of a new store, the root is still a leaf,
  it holds the keys \<open>a\<close>, \<open>b\<close>, \<open>c\<close> and no child, and \<open>Find\<close> of \<open>e\<close> gives page 0
  and entry 0, not the pointer \<open>(6, 1)\<close> inserted for it.
\<close>

theorem five_inserts_no_split:
  "NewTextFileHandler None = Inr fresh_handler
   \<and> NewBPlusTree fresh_handler index_order = Inr (empty_tree index_order)
   \<and> BTreeOrder = 4
   \<and> root_view (run (empty_tree index_order)
        (five_inserts index_order index_order index_order index_order index_order))
       = Inr (True, [''a'', ''b'', ''c''], [''2:1'', ''3:1'', ''4:1''], [])
   \<and> Find (run (empty_tree index_order)
        (five_inserts index_order index_order index_order index_order index_order)) ''e''
       = Inr (0, 0)"
proof -
  let ?t = "run (empty_tree index_order)
    (five_inserts index_order index_order index_order index_order index_order)"
  have st: "stored ?t [(''a'', 2, 1), (''b'', 3, 1), (''c'', 4, 1)]"
    by (rule stored_five) simp_all
  have "root_view ?t = Inr (True, [''a'', ''b'', ''c''], [''2:1'', ''3:1'', ''4:1''], [])"
    using root_view_stored [OF st] by (simp add: pointer_text_def)
  moreover have "Find ?t ''e'' = Inr (0, 0)"
    using Find_stored [OF st, of "''e''"] by (simp add: index_pointer_def)
  ultimately show ?thesis
    by (simp add: NewTextFileHandler_None NewBPlusTree_fresh BTreeOrder_def)
qed

text \<open>
  Claim C2, amended. With \<open>BTreeOrder = 4\<close>, the keys \<open>a\<close>, \<open>b\<close>, \<open>c\<close>, \<open>d\<close>,
  \<open>e\<close> are inserted into the index of a new store, whatever order the writes of the root
  page visit its three entries in. The first three keys fill the root leaf; the fourth and
  the fifth \<open>Insert\<close> return no error and change nothing. After the fourth and after the
  fifth insert the root is a leaf with the keys \<open>a\<close>, \<open>b\<close>, \<open>c\<close> and no child;
  \<open>Find\<close> resolves \<open>a\<close>, \<open>b\<close> and \<open>c\<close> to their pointers and gives page 0 and
  entry 0 for \<open>d\<close> and \<open>e\<close>.
\<close>

theorem five_inserts_fill_root_leaf:
  assumes "NewTextFileHandler None = Inr fh" and "NewBPlusTree fh order0 = Inr tree"
    and "root_order order0" and "root_order order1" and "root_order order2"
    and "root_order order3"
  shows "root_view (run tree (take 4 (five_inserts order1 order2 order3 order4 order5)))
           = Inr (True, [''a'', ''b'', ''c''], [''2:1'', ''3:1'', ''4:1''], [])
       \<and> root_view (run tree (five_inserts order1 order2 order3 order4 order5))
           = Inr (True, [''a'', ''b'', ''c''], [''2:1'', ''3:1'', ''4:1''], [])
       \<and> BPlusTree_Insert (run tree (take 3 (five_inserts order1 order2 order3 order4 order5)))
             ''d'' 5 1 order4
           = (None, run tree (take 3 (five_inserts order1 order2 order3 order4 order5)))
       \<and> BPlusTree_Insert (run tree (take 4 (five_inserts order1 order2 order3 order4 order5)))
             ''e'' 6 1 order5
           = (None, run tree (take 4 (five_inserts order1 order2 order3 order4 order5)))
       \<and> map (Find (run tree (five_inserts order1 order2 order3 order4 order5)))
             [''a'', ''b'', ''c'', ''d'', ''e'']
           = [Inr (2, 1), Inr (3, 1), Inr (4, 1), Inr (0, 0), Inr (0, 0)]"
proof -
  let ?ops = "five_inserts order1 order2 order3 order4 order5"
  let ?kvs = "[(''a'', 2, 1), (''b'', 3, 1), (''c'', 4, 1)] :: (string \<times> nat \<times> nat) list"
  have tree: "tree = empty_tree order0" using assms(1,2) by (rule fresh_tree)
  have 3: "stored (run tree (take 3 ?ops)) ?kvs"
    unfolding tree using assms(3-6) by (rule stored_three)
  have 4: "stored (run tree (take 4 ?ops)) ?kvs"
    unfolding tree using assms(3-6) by (rule stored_five(1))
  have 5: "stored (run tree ?ops) ?kvs"
    unfolding tree using assms(3-6) by (rule stored_five(2))
  have "root_view (run tree (take 4 ?ops))
      = Inr (True, [''a'', ''b'', ''c''], [''2:1'', ''3:1'', ''4:1''], [])"
    using root_view_stored [OF 4] by (simp add: pointer_text_def)
  moreover have "root_view (run tree ?ops)
      = Inr (True, [''a'', ''b'', ''c''], [''2:1'', ''3:1'', ''4:1''], [])"
    using root_view_stored [OF 5] by (simp add: pointer_text_def)
  moreover have "BPlusTree_Insert (run tree (take 3 ?ops)) ''d'' 5 1 order4
      = (None, run tree (take 3 ?ops))"
    using 3 by (rule Insert_full) simp
  moreover have "BPlusTree_Insert (run tree (take 4 ?ops)) ''e'' 6 1 order5
      = (None, run tree (take 4 ?ops))"
    using 4 by (rule Insert_full) simp
  moreover have "Find (run tree ?ops) k
      = Inr (case map_of ?kvs k of None \<Rightarrow> (0, 0) | Some p \<Rightarrow> p)" for k
    using 5 by (rule Find_stored) (simp add: index_pointer_def)
  then have "map (Find (run tree ?ops)) [''a'', ''b'', ''c'', ''d'', ''e'']
      = [Inr (2, 1), Inr (3, 1), Inr (4, 1), Inr (0, 0), Inr (0, 0)]"
    by simp
  ultimately show ?thesis by (simp only: simp_thms)
qed

theorem five_inserts_fill_root_leaf_witness:
  "root_view (run (empty_tree index_order)
       (take 4 (five_inserts index_order index_order index_order index_order index_order)))
     = Inr (True, [''a'', ''b'', ''c''], [''2:1'', ''3:1'', ''4:1''], [])
   \<and> map (Find (run (empty_tree index_order)
       (five_inserts index_order index_order index_order index_order index_order)))
       [''a'', ''b'', ''c'', ''d'', ''e'']
     = [Inr (2, 1), Inr (3, 1), Inr (4, 1), Inr (0, 0), Inr (0, 0)]"
  using five_inserts_fill_root_leaf [OF NewTextFileHandler_None NewBPlusTree_fresh,
      of index_order index_order index_order index_order index_order index_order]
  by simp

text \<open>
  Claim C8 as the specification states it does not hold for \<open>BPlusTree.Insert\<close>, which
  does not look whether the key is there already: inserted twice, a key stands twice in
  the root, and the keys \<open>a\<close>, \<open>a\<close> are not strictly ascending.
\<close>

theorem key_inserted_twice_stands_twice:
  "fst (BPlusTree_Insert (run (empty_tree index_order) [(Insert_op ''a'' 2 1, index_order)])
      ''a'' 3 1 index_order) = None
   \<and> root_view (run (empty_tree index_order)
        [(Insert_op ''a'' 2 1, index_order), (Insert_op ''a'' 3 1, index_order)])
       = Inr (True, [''a'', ''a''], [''3:1'', ''2:1''], [])
   \<and> \<not> sorted_wrt (<) [''a'', ''a'']"
  using duplicate_insert_no_error duplicate_insert_view by simp

text \<open>
  Claim C8, amended. The calls are made on the index of a new store; every inserted key is
  a non-empty text of at most 21842 printable ASCII characters, none of them a space or a
  comma, that the root does not hold when the call arrives (\<open>inserts_new_keys\<close>).
  Then after every step the root is a leaf whose keys are strictly ascending and whose
  pointers stand in the order of their keys: the entries are those of \<open>entries_after\<close>, where an insert into a leaf with room
  puts the entry at the place the binary search gives and a delete takes out the entry of
  the key.
\<close>

theorem root_keys_strictly_ascending:
  assumes "NewTextFileHandler None = Inr fh" and "NewBPlusTree fh order0 = Inr tree"
    and "root_order order0" and "inserts_new_keys tree ops"
  shows "root_view (run tree (take n ops))
           = Inr (True, map fst (entries_after (map fst (take n ops))),
                  map (pointer_text \<circ> snd) (entries_after (map fst (take n ops))), [])
       \<and> sorted_wrt (<) (map fst (entries_after (map fst (take n ops))))"
proof -
  have tree: "tree = empty_tree order0" using assms(1,2) by (rule fresh_tree)
  have st: "stored tree []" unfolding tree using assms(3) by (rule stored_empty_tree)
  have "inserts_new_keys tree (take n ops)" using assms(4) by (rule inserts_new_keys_take)
  with st have "stored (run tree (take n ops)) (entries_after (map fst (take n ops)))"
    by (rule entries_after_stored)
  then show ?thesis by (simp add: root_view_stored) (simp add: stored_def)
qed

theorem root_keys_strictly_ascending_witness:
  "root_view (run (empty_tree index_order)
      [(Insert_op ''b'' 3 1, index_order), (Insert_op ''a'' 2 1, index_order)])
     = Inr (True, [''a'', ''b''], [''2:1'', ''3:1''], [])
   \<and> sorted_wrt (<) [''a'', ''b'']"
proof -
  have "stored (run (empty_tree index_order) ([] @ [(Insert_op ''b'' 3 1, index_order)]))
      (ins_entry ''b'' (3, 1) [])"
    by (intro run_Insert_stored) (simp_all add: uint_pointer_def stored_empty_tree)
  then have "root_keys (apply_op (empty_tree index_order) (Insert_op ''b'' 3 1, index_order))
      = [''b'']"
    by (simp add: root_keys_stored ins_entry_def)
  moreover have "root_keys (empty_tree index_order) = []"
    by (simp add: root_keys_stored [OF stored_empty_tree])
  moreover have "SearchStrings [''b''] ''a'' = 0"
    by (simp add: SearchStrings_def Search.simps [of 0 "Suc 0"])
  ultimately show ?thesis
    using root_keys_strictly_ascending [OF NewTextFileHandler_None NewBPlusTree_fresh,
      of index_order "[(Insert_op ''b'' 3 1, index_order), (Insert_op ''a'' 2 1, index_order)]" 2]
    by (simp add: uint_pointer_def entries_after_def ins_entry_def BTreeOrder_def
        pointer_text_def)
qed

text \<open>
  Claim C5 does not hold of the code. \<open>ReadPage\<close> takes for the section of page \<open>id\<close>
  the first line that contains the text \<open>PageID: id\<close>, so the line \<open>PageID: 10\<close>
  stands for page 1 as well. The file below records ten pages and holds one section, that
  of page 10. \<open>ReadPage\<close> of page 2 fails, as no line matches; \<open>ReadPage\<close> of page 1,
  which has no section either, succeeds and returns the type and the payload of page 10
  under the page id 1.
\<close>

theorem ReadPage_takes_section_of_longer_id:
  "NewTextFileHandler (Some page_ten_file) = Inr page_ten_handler
   \<and> ReadPage page_ten_handler 10
       = Inr \<lparr>Header = \<lparr>PageLSN = 0, PageID = 10, PageType = ''Data''\<rparr>,
              Data = [''EntryIndex'' \<mapsto> ''1'', ''Entry-1'' \<mapsto> ''k|X'']\<rparr>
   \<and> ReadPage page_ten_handler 2 = Inl PageNotFound
   \<and> ReadPage page_ten_handler 1
       = Inr \<lparr>Header = \<lparr>PageLSN = 0, PageID = 1, PageType = ''Data''\<rparr>,
              Data = [''EntryIndex'' \<mapsto> ''1'', ''Entry-1'' \<mapsto> ''k|X'']\<rparr>"
  by (simp only: NewTextFileHandler_page_ten ReadPage_page_ten_1 ReadPage_page_ten_2
      ReadPage_page_ten_10 simp_thms)

text \<open>
  Claim C6 does not hold of the code. \<open>AllocatePage\<close> changes the handler in memory and
  never the file, whatever the handler. The header of the file below lists page 5 as free.
  \<open>AllocatePage\<close> hands out page 5 and empties the list in memory; the page is then
  written. The header still lists page 5, and a store opened on the file has page 5, now in
  use, in its free list again. The source has no \<open>DeallocatePage\<close>.
\<close>

theorem allocated_page_stays_in_free_list:
  "NewTextFileHandler (Some freed_page_file) = Inr freed_page_handler
   \<and> DeallocatedPages freed_page_handler = [5]
   \<and> AllocatePage freed_page_handler
       = (\<lparr>Header = \<lparr>PageLSN = 0, PageID = 5, PageType = []\<rparr>, Data = Map.empty\<rparr>,
          freed_page_handler\<lparr>DeallocatedPages := []\<rparr>)
   \<and> (\<forall>self. FileContent (snd (AllocatePage self)) = FileContent self)
   \<and> WritePage (freed_page_handler\<lparr>DeallocatedPages := []\<rparr>) page_five
         [''EntryIndex'', ''Entry-1'']
       = (None, freed_page_handler\<lparr>DeallocatedPages := [], FileContent := page_five_file\<rparr>)
   \<and> NewTextFileHandler (Some page_five_file)
       = Inr (freed_page_handler\<lparr>FileContent := page_five_file\<rparr>)
   \<and> DeallocatedPages (freed_page_handler\<lparr>FileContent := page_five_file\<rparr>) = [5]"
  by (simp add: NewTextFileHandler_freed_page AllocatePage_freed_page AllocatePage_FileContent
      WritePage_page_five NewTextFileHandler_page_five)
    (simp add: freed_page_handler_def)

text \<open>
  Claim C3 as the specification states it does not hold in every state of the database. On
  a new database the keys \<open>a\<close>, \<open>b\<close>, \<open>c\<close> are inserted and fill the root leaf. Then
  \<open>Insert\<close> of \<open>user:1\<close> with the data \<open>X\<close> returns no error, although the index drops
  the key; the second \<open>Insert\<close> of \<open>user:1\<close>, with the data \<open>Y\<close>, returns no error
  either, and \<open>Get\<close> finds no record for \<open>user:1\<close>.
\<close>

theorem second_insert_succeeds_on_full_index:
  "OpenDatabase None index_order = Inr new_db
   \<and> Database_Insert new_db ''a'' ''A'' record_order index_order = (None, db_a)
   \<and> Database_Insert db_a ''b'' ''B'' record_order index_order = (None, db_ab)
   \<and> Database_Insert db_ab ''c'' ''C'' record_order index_order = (None, db_abc)
   \<and> Database_Insert db_abc ''user:1'' ''X'' record_order index_order = (None, db_abc_x)
   \<and> Database_Insert db_abc_x ''user:1'' ''Y'' record_order index_order = (None, db_abc_xy)
   \<and> Get db_abc_xy ''user:1'' = Inr None"
  by (simp only: OpenDatabase_None Insert_step_0 Insert_step_1 Insert_step_2 Insert_step_3
      Insert_step_4 Get_after_two simp_thms)

text \<open>
  Claim C3, amended. When the index holds the key, that is when \<open>Find\<close> resolves it to a
  page (page ids start at 1, and \<open>Find\<close> gives page 0 for a key the index does not
  hold), \<open>Database.Insert\<close> fails with the already-exists error and leaves the database
  as it was, so that \<open>Get\<close> returns what it returned before. Scenario C on a new database
  is the instance the witness evaluates: the first \<open>Insert\<close> of \<open>user:1\<close> stores the
  record, the second fails, and \<open>Get\<close> returns the record with the data \<open>X\<close>.
\<close>

theorem insert_of_present_key_fails:
  assumes "Find (Index_of db) ID = Inr (pageID, entryIndex)" and "pageID \<noteq> 0"
  shows "Database_Insert db ID Data' order1 order2 = (Some AlreadyExists, db)
       \<and> Get (snd (Database_Insert db ID Data' order1 order2)) ID = Get db ID"
  using assms by (simp add: Database_Insert_def)

theorem insert_of_present_key_fails_witness:
  "OpenDatabase None index_order = Inr new_db
   \<and> Database_Insert new_db ''user:1'' ''X'' record_order index_order = (None, user_db)
   \<and> Database_Insert user_db ''user:1'' ''Y'' record_order index_order
       = (Some AlreadyExists, user_db)
   \<and> Get (snd (Database_Insert user_db ''user:1'' ''Y'' record_order index_order)) ''user:1''
       = Inr (Some \<lparr>EntryIndex = 1, Fields = [''user:1'', ''X'']\<rparr>)"
  using insert_of_present_key_fails [OF Find_user, of "''Y''" record_order index_order]
  by (simp add: OpenDatabase_None Insert_user Get_user)

text \<open>
  Claim C4 as the specification states it does not hold for every page. The file keeps a
  page as lines \<open>key: value\<close>, and \<open>ReadPage\<close> trims the white space around keys and
  values. On a new store a page is allocated and written with the value \<open>x\<close> followed by
  a space; \<open>ReadPage\<close> returns the value \<open>x\<close> without the space, a page that differs
  from the page written.
\<close>

theorem padded_value_is_read_trimmed:
  "NewTextFileHandler None = Inr fresh_handler
   \<and> AllocatePage fresh_handler
       = (\<lparr>Header = \<lparr>PageLSN = 0, PageID = 1, PageType = []\<rparr>, Data = Map.empty\<rparr>,
          fresh_handler\<lparr>PageCount := 1\<rparr>)
   \<and> WritePage (fresh_handler\<lparr>PageCount := 1\<rparr>) padded_page [''note'']
       = (None, fresh_handler\<lparr>PageCount := 1, FileContent := padded_file\<rparr>)
   \<and> ReadPage (fresh_handler\<lparr>PageCount := 1, FileContent := padded_file\<rparr>) 1
       = Inr (padded_page\<lparr>Data := [''note'' \<mapsto> ''x'']\<rparr>)
   \<and> padded_page\<lparr>Data := [''note'' \<mapsto> ''x'']\<rparr> \<noteq> padded_page"
  using padded_page_differs
  by (simp only: NewTextFileHandler_None AllocatePage_fresh WritePage_padded ReadPage_padded
      simp_thms)

text \<open>
  Claim C4, amended. The page is one the text format keeps (\<open>clean_page\<close>): its type and
  its values have no newline and no white space at either end, its keys have no space, no
  newline and no white space at either end and are not \<open>LSN\<close>, \<open>Type\<close> or \<open>PageID\<close>,
  and its LSN is below \<open>2 ^ 64\<close>. Its id is at least 1 and at most the page count of the
  handler, as for a page that \<open>AllocatePage\<close> gave. Whatever the file holds and whatever
  order the write visits the payload in: when \<open>WritePage\<close> returns no error and no line of
  the file it leaves has 65536 bytes or more, \<open>ReadPage\<close> of the same id returns the
  page, with the same header and the same payload.
\<close>

theorem write_then_read_page:
  assumes "clean_page pg" and "iteration_order order (Data pg)"
    and "1 \<le> PageID (Header pg)" and "PageID (Header pg) \<le> PageCount fh"
    and "WritePage fh pg order = (None, fh')"
    and "TooLong \<notin> set (Scanner (FileContent fh'))"
  shows "ReadPage fh' (PageID (Header pg)) = Inr pg"
  using assms by (rule WritePage_ReadPage)

theorem write_then_read_page_witness:
  "WritePage (freed_page_handler\<lparr>DeallocatedPages := []\<rparr>) page_five
       [''EntryIndex'', ''Entry-1'']
     = (None, freed_page_handler\<lparr>DeallocatedPages := [], FileContent := page_five_file\<rparr>)
   \<and> ReadPage (freed_page_handler\<lparr>DeallocatedPages := [], FileContent := page_five_file\<rparr>) 5
     = Inr page_five"
proof -
  have "ReadPage (freed_page_handler\<lparr>DeallocatedPages := [], FileContent := page_five_file\<rparr>)
      (PageID (Header page_five)) = Inr page_five"
  proof (rule write_then_read_page [OF clean_page_five _ _ _ WritePage_page_five])
    show "iteration_order [''EntryIndex'', ''Entry-1''] (Data page_five)"
      by (auto simp: iteration_order_def page_five_def)
    show "1 \<le> PageID (Header page_five)" by (simp add: page_five_def)
    show "PageID (Header page_five) \<le> PageCount (freed_page_handler\<lparr>DeallocatedPages := []\<rparr>)"
      by (simp add: page_five_def freed_page_handler_def)
    show "TooLong \<notin> set (Scanner (FileContent
        (freed_page_handler\<lparr>DeallocatedPages := [], FileContent := page_five_file\<rparr>)))"
      by (simp add: Scanner_page_five)
  qed
  moreover have "PageID (Header page_five) = 5" by (simp add: page_five_def)
  ultimately show ?thesis by (simp add: WritePage_page_five)
qed

end
